theory Spec2Isabelle
  imports Main "HOL-Library.Word" "HOL-Library.Extended_Nat" "HOL-Library.AList"
begin

section \<open>Configurations, pointers and the configuration space\<close>

text \<open>
  The planner handles configurations through raw pointers (\<open>base::State*\<close>). A pointer is
  either \<open>NULL\<close> (\<open>None\<close>) or an address. The \<open>safeState\<close> wrapper of the header only
  stores such a pointer (default \<open>NULL\<close>), so it is the same type. Values of type
  \<open>double\<close> are kept abstract: a type \<open>'d\<close> of class \<open>infinity\<close>, whose constant
  \<open>\<infinity>\<close> stands for \<open>std::numeric_limits<double>::infinity()\<close>; where the code
  compares two of them the type is ordered as well. A memory holds the live
  configurations by address, and the trace of the calls that allocated and freed them.
\<close>

type_synonym addr = nat
type_synonym State_ptr = "addr option"
type_synonym safeState = State_ptr

datatype error = NullPointer | InvalidPointer | InvalidVertex | OutOfFuel

datatype event = FreeState addr | CloneState addr addr

record 'st memory =
  cells :: "(addr \<times> 'st) list"
  trace :: "event list"

record ('st, 'd) SpaceInformation =
  si_distance :: "'st \<Rightarrow> 'st \<Rightarrow> 'd"
  si_checkMotion :: "'st \<Rightarrow> 'st \<Rightarrow> bool"

definition bind_result :: "error + 'a \<Rightarrow> ('a \<Rightarrow> error + 'b) \<Rightarrow> error + 'b" where
  "bind_result m f = (case m of Inl e \<Rightarrow> Inl e | Inr x \<Rightarrow> f x)"

definition lookup :: "'st memory \<Rightarrow> addr \<Rightarrow> 'st option" where
  "lookup h a = map_of (cells h) a"

definition fresh_addr :: "(addr \<times> 'st) list \<Rightarrow> addr" where
  "fresh_addr cs = Suc (fold max (map fst cs) 0)"

text \<open>
  Modelled from the spec: the configuration space (\<open>SpaceInformation\<close>) is an external
  collaborator that can free a configuration, clone one and measure the distance between
  two. Freeing, cloning or measuring through \<open>NULL\<close> or through an address that is not
  live is undefined behaviour in the C++ and an error value here. A clone is placed at an
  address that is not live at that moment; every call of \<open>freeState\<close> and \<open>cloneState\<close>
  is appended to the trace.
\<close>

definition freeState :: "State_ptr \<Rightarrow> 'st memory \<Rightarrow> error + 'st memory" where
  "freeState p h =
     (case p of
        None \<Rightarrow> Inl NullPointer
      | Some a \<Rightarrow>
          (case lookup h a of
             None \<Rightarrow> Inl InvalidPointer
           | Some v \<Rightarrow> Inr (h\<lparr>cells := filter (\<lambda>kv. fst kv \<noteq> a) (cells h),
                               trace := trace h @ [FreeState a]\<rparr>)))"

definition cloneState :: "State_ptr \<Rightarrow> 'st memory \<Rightarrow> error + (State_ptr \<times> 'st memory)" where
  "cloneState p h =
     (case p of
        None \<Rightarrow> Inl NullPointer
      | Some a \<Rightarrow>
          (case lookup h a of
             None \<Rightarrow> Inl InvalidPointer
           | Some v \<Rightarrow>
               Inr (Some (fresh_addr (cells h)),
                    h\<lparr>cells := (fresh_addr (cells h), v) # cells h,
                      trace := trace h @ [CloneState a (fresh_addr (cells h))]\<rparr>)))"

definition distance ::
  "('st, 'd) SpaceInformation \<Rightarrow> State_ptr \<Rightarrow> State_ptr \<Rightarrow> 'st memory \<Rightarrow> error + 'd" where
  "distance si p q h =
     (case (p, q) of
        (Some a, Some b) \<Rightarrow>
          (case (lookup h a, lookup h b) of
             (Some x, Some y) \<Rightarrow> Inr (si_distance si x y)
           | _ \<Rightarrow> Inl InvalidPointer)
      | _ \<Rightarrow> Inl NullPointer)"

section \<open>Interface data\<close>

text \<open>
  \<open>struct InterfaceData\<close>: the pairs \<open>points_\<close> and \<open>sigmas_\<close> of safe states and the
  last known distance \<open>d_\<close> (here \<open>d_last\<close>; an Isabelle name cannot end in an underscore).
\<close>

record 'd InterfaceData =
  points_first :: safeState
  points_second :: safeState
  sigmas_first :: safeState
  sigmas_second :: safeState
  d_last :: 'd

definition InterfaceData_new :: "('d::infinity) InterfaceData" where
  "InterfaceData_new =
     \<lparr>points_first = None, points_second = None,
      sigmas_first = None, sigmas_second = None, d_last = \<infinity>\<rparr>"

text \<open>
  \<open>setFirst\<close> and \<open>setSecond\<close> take their two arguments by reference
  (\<open>const safeState&\<close>) and read each of them with \<open>get\<close> at the moment it is cloned.
  A reference is to a \<open>safeState\<close> outside the record, which the call does not change
  and which is given by the pointer it holds, or to one of the four members of the
  record the call is made on, whose pointer is read from the record as it is at that
  moment: the second argument is read after the close point was overwritten.
\<close>

datatype safeState_ref =
  Outside safeState | PointsFirst | PointsSecond | SigmasFirst | SigmasSecond

fun get :: "safeState_ref \<Rightarrow> 'd InterfaceData \<Rightarrow> State_ptr" where
  "get (Outside p) r = p"
| "get PointsFirst r = points_first r"
| "get PointsSecond r = points_second r"
| "get SigmasFirst r = sigmas_first r"
| "get SigmasSecond r = sigmas_second r"

definition setFirst ::
  "('st, 'd) SpaceInformation \<Rightarrow> safeState_ref \<Rightarrow> safeState_ref \<Rightarrow> 'd InterfaceData \<Rightarrow>
     'st memory \<Rightarrow> error + ('d InterfaceData \<times> 'st memory)" where
  "setFirst si p s r h =
     bind_result (if points_first r \<noteq> None then freeState (points_first r) h else Inr h)
       (\<lambda>h1. bind_result (cloneState (get p r) h1)
       (\<lambda>(c1, h2). bind_result (if sigmas_first (r\<lparr>points_first := c1\<rparr>) \<noteq> None
                                then freeState (sigmas_first (r\<lparr>points_first := c1\<rparr>)) h2
                                else Inr h2)
       (\<lambda>h3. bind_result (cloneState (get s (r\<lparr>points_first := c1\<rparr>)) h3)
       (\<lambda>(c2, h4).
          if points_second r \<noteq> None
          then bind_result (distance si c1 (points_second r) h4)
                 (\<lambda>d. Inr (r\<lparr>points_first := c1, sigmas_first := c2, d_last := d\<rparr>, h4))
          else Inr (r\<lparr>points_first := c1, sigmas_first := c2\<rparr>, h4)))))"

definition setSecond ::
  "('st, 'd) SpaceInformation \<Rightarrow> safeState_ref \<Rightarrow> safeState_ref \<Rightarrow> 'd InterfaceData \<Rightarrow>
     'st memory \<Rightarrow> error + ('d InterfaceData \<times> 'st memory)" where
  "setSecond si p s r h =
     bind_result (if points_second r \<noteq> None then freeState (points_second r) h else Inr h)
       (\<lambda>h1. bind_result (cloneState (get p r) h1)
       (\<lambda>(c1, h2). bind_result (if sigmas_second (r\<lparr>points_second := c1\<rparr>) \<noteq> None
                                then freeState (sigmas_second (r\<lparr>points_second := c1\<rparr>)) h2
                                else Inr h2)
       (\<lambda>h3. bind_result (cloneState (get s (r\<lparr>points_second := c1\<rparr>)) h3)
       (\<lambda>(c2, h4).
          if points_first r \<noteq> None
          then bind_result (distance si (points_first r) c1 h4)
                 (\<lambda>d. Inr (r\<lparr>points_second := c1, sigmas_second := c2, d_last := d\<rparr>, h4))
          else Inr (r\<lparr>points_second := c1, sigmas_second := c2\<rparr>, h4)))))"

definition clearSafeState :: "safeState \<Rightarrow> 'st memory \<Rightarrow> error + (safeState \<times> 'st memory)" where
  "clearSafeState ss h =
     bind_result (if ss \<noteq> None then freeState ss h else Inr h) (\<lambda>h'. Inr (None, h'))"

definition clearInterfaceData ::
  "('d::infinity) InterfaceData \<Rightarrow> 'st memory \<Rightarrow> error + ('d InterfaceData \<times> 'st memory)" where
  "clearInterfaceData iData h =
     bind_result (clearSafeState (points_first iData) h)
       (\<lambda>(p1, h1). bind_result (clearSafeState (points_second iData) h1)
       (\<lambda>(p2, h2). bind_result (clearSafeState (sigmas_first iData) h2)
       (\<lambda>(s1, h3). bind_result (clearSafeState (sigmas_second iData) h3)
       (\<lambda>(s2, h4).
          Inr (iData\<lparr>points_first := p1, points_second := p2,
                     sigmas_first := s1, sigmas_second := s2, d_last := \<infinity>\<rparr>, h4)))))"

text \<open>
  The record invariant: \<open>d_\<close> is the distance between the two close points when both are
  set, and infinity otherwise.
\<close>

definition d_consistent ::
  "('st, 'd::infinity) SpaceInformation \<Rightarrow> 'd InterfaceData \<Rightarrow> 'st memory \<Rightarrow> bool" where
  "d_consistent si r h =
     (if points_first r \<noteq> None \<and> points_second r \<noteq> None
      then distance si (points_first r) (points_second r) h = Inr (d_last r)
      else d_last r = \<infinity>)"

text \<open>Sequences of operations on one record, stopping at the first error.\<close>

datatype interface_op =
  SetFirst safeState_ref safeState_ref | SetSecond safeState_ref safeState_ref
| ClearInterfaceData

fun apply_interface_op ::
  "('st, 'd::infinity) SpaceInformation \<Rightarrow> interface_op \<Rightarrow> 'd InterfaceData \<times> 'st memory
     \<Rightarrow> error + ('d InterfaceData \<times> 'st memory)" where
  "apply_interface_op si (SetFirst p s) (r, h) = setFirst si p s r h"
| "apply_interface_op si (SetSecond p s) (r, h) = setSecond si p s r h"
| "apply_interface_op si ClearInterfaceData (r, h) = clearInterfaceData r h"

fun apply_interface_ops ::
  "('st, 'd::infinity) SpaceInformation \<Rightarrow> interface_op list \<Rightarrow> 'd InterfaceData \<times> 'st memory
     \<Rightarrow> error + ('d InterfaceData \<times> 'st memory)" where
  "apply_interface_ops si [] rh = Inr rh"
| "apply_interface_ops si (x # xs) rh =
     bind_result (apply_interface_op si x rh) (apply_interface_ops si xs)"

section \<open>The sparse roadmap\<close>

text \<open>
  \<open>enum GuardType\<close>, vertex and edge descriptors, and the roadmap graph of the header:
  every vertex carries a configuration pointer, a colour (the reason the guard was
  added) and its interface hash; every edge carries a weight. The predecessor and rank
  properties of the vertices are the two property maps of \<open>disjointSets_\<close>.
\<close>

datatype GuardType = START | GOAL | COVERAGE | CONNECTIVITY | INTERFACE | QUALITY

type_synonym Vertex = nat
type_synonym VertexPair = "Vertex \<times> Vertex"
type_synonym 'd InterfaceHash = "(VertexPair \<times> 'd InterfaceData) list"

record 'd vertex_properties =
  vertex_state :: State_ptr
  vertex_color :: GuardType
  vertex_interface_data :: "'d InterfaceHash"

record 'd Graph =
  vertices :: "'d vertex_properties list"
  edges :: "(Vertex \<times> Vertex \<times> 'd) list"

record disjoint_sets =
  vertex_rank :: "nat list"
  vertex_predecessor :: "nat list"

text \<open>
  The members of \<open>class SPARStwo\<close> that the operations below read or write. A member
  \<open>x_\<close> of the header is the field \<open>x\<close> here (\<open>g_\<close> is \<open>g_graph\<close>).
\<close>

record 'd SPARStwo =
  g_graph :: "'d Graph"
  disjointSets :: disjoint_sets
  startM :: "Vertex list"
  goalM :: "Vertex list"
  stretchFactor :: 'd
  sparseDelta :: 'd
  denseDelta :: 'd
  maxFailures :: "32 word"
  nearSamplePoints :: "32 word"
  qNew :: State_ptr
  graphNeighborhood :: "Vertex list"
  visibleNeighborhood :: "Vertex list"
  addedSolution :: bool
  iterations :: "32 word"

subsection \<open>Configuration parameters\<close>

definition setStretchFactor :: "'d \<Rightarrow> 'd SPARStwo \<Rightarrow> 'd SPARStwo" where
  "setStretchFactor t P = P\<lparr>stretchFactor := t\<rparr>"

definition setSparseDelta :: "'d \<Rightarrow> 'd SPARStwo \<Rightarrow> 'd SPARStwo" where
  "setSparseDelta D P = P\<lparr>sparseDelta := D\<rparr>"

definition setDenseDelta :: "'d \<Rightarrow> 'd SPARStwo \<Rightarrow> 'd SPARStwo" where
  "setDenseDelta d P = P\<lparr>denseDelta := d\<rparr>"

definition setMaxFailures :: "32 word \<Rightarrow> 'd SPARStwo \<Rightarrow> 'd SPARStwo" where
  "setMaxFailures m P = P\<lparr>maxFailures := m\<rparr>"

definition getMaxFailures :: "'d SPARStwo \<Rightarrow> 32 word" where
  "getMaxFailures P = maxFailures P"

definition getDenseDelta :: "'d SPARStwo \<Rightarrow> 'd" where
  "getDenseDelta P = denseDelta P"

definition getSparseDelta :: "'d SPARStwo \<Rightarrow> 'd" where
  "getSparseDelta P = sparseDelta P"

definition getStretchFactor :: "'d SPARStwo \<Rightarrow> 'd" where
  "getStretchFactor P = stretchFactor P"

text \<open>
  A caller that passes an \<open>int\<close> to \<open>setMaxFailures(unsigned int)\<close> has it converted to
  the parameter type first: the value modulo \<open>2^32\<close>.
\<close>

definition to_unsigned_int :: "int \<Rightarrow> 32 word" where
  "to_unsigned_int i = word_of_int i"

definition milestoneCount :: "'d SPARStwo \<Rightarrow> nat" where
  "milestoneCount P = length (vertices (g_graph P))"

definition distanceFunction ::
  "('st, 'd) SpaceInformation \<Rightarrow> Vertex \<Rightarrow> Vertex \<Rightarrow> 'st memory \<Rightarrow> 'd SPARStwo \<Rightarrow> error + 'd" where
  "distanceFunction si a b h P =
     (if a < length (vertices (g_graph P)) \<and> b < length (vertices (g_graph P))
      then distance si (vertex_state (vertices (g_graph P) ! a))
                       (vertex_state (vertices (g_graph P) ! b)) h
      else Inl InvalidVertex)"

subsection \<open>Connected components\<close>

text \<open>
  Modelled from the spec: the union-find over guard identifiers (\<open>boost::disjoint_sets\<close>
  on the predecessor and rank maps that the graph type of the header provides; its code
  is not part of the header, and neither are the bodies of \<open>uniteComponents\<close> and of the
  component query). Every guard has a parent and a rank; \<open>find_set\<close> follows parents to
  a root, \<open>link\<close> hangs the root of smaller rank under the other, and two guards are in
  the same component when their roots coincide. Following parents is bounded by the
  number of guards; running out of that bound stands for a search that never returns.
\<close>

fun find_fuel :: "nat \<Rightarrow> nat list \<Rightarrow> Vertex \<Rightarrow> error + Vertex" where
  "find_fuel 0 p x = Inl OutOfFuel"
| "find_fuel (Suc k) p x =
     (if x < length p
      then (if p ! x = x then Inr x else find_fuel k p (p ! x))
      else Inl InvalidVertex)"

definition find_set :: "disjoint_sets \<Rightarrow> Vertex \<Rightarrow> error + Vertex" where
  "find_set ds x = find_fuel (length (vertex_predecessor ds)) (vertex_predecessor ds) x"

definition make_set :: "disjoint_sets \<Rightarrow> disjoint_sets" where
  "make_set ds =
     ds\<lparr>vertex_rank := vertex_rank ds @ [0],
        vertex_predecessor := vertex_predecessor ds @ [length (vertex_predecessor ds)]\<rparr>"

definition link :: "disjoint_sets \<Rightarrow> Vertex \<Rightarrow> Vertex \<Rightarrow> disjoint_sets" where
  "link ds x y =
     (if x = y then ds
      else if vertex_rank ds ! y < vertex_rank ds ! x
      then ds\<lparr>vertex_predecessor := (vertex_predecessor ds)[y := x]\<rparr>
      else if vertex_rank ds ! x = vertex_rank ds ! y
      then ds\<lparr>vertex_predecessor := (vertex_predecessor ds)[x := y],
              vertex_rank := (vertex_rank ds)[y := Suc (vertex_rank ds ! y)]\<rparr>
      else ds\<lparr>vertex_predecessor := (vertex_predecessor ds)[x := y]\<rparr>)"

definition union_set :: "disjoint_sets \<Rightarrow> Vertex \<Rightarrow> Vertex \<Rightarrow> error + disjoint_sets" where
  "union_set ds x y =
     bind_result (find_set ds x) (\<lambda>rx. bind_result (find_set ds y) (\<lambda>ry. Inr (link ds rx ry)))"

definition uniteComponents :: "Vertex \<Rightarrow> Vertex \<Rightarrow> 'd SPARStwo \<Rightarrow> error + 'd SPARStwo" where
  "uniteComponents m1 m2 P =
     bind_result (union_set (disjointSets P) m1 m2) (\<lambda>ds. Inr (P\<lparr>disjointSets := ds\<rparr>))"


subsection \<open>Addressing interface data\<close>

text \<open>
  Modelled from the spec: \<open>index\<close> and \<open>getData\<close> are declared in the header without a
  body. Records are addressed by an order-independent key derived from a pair of guard
  identifiers, so that \<open>(a, b)\<close> and \<open>(b, a)\<close> map to the same record; a record is
  created on first need. The slot written for the side of guard \<open>r\<close> in the record of
  the pair \<open>(r, rp)\<close> is chosen by numeric ordering: lower identifier, first slot.
\<close>

definition index :: "Vertex \<Rightarrow> Vertex \<Rightarrow> VertexPair" where
  "index vp vpp = (if vp < vpp then (vp, vpp) else (vpp, vp))"

definition getData ::
  "Vertex \<Rightarrow> Vertex \<Rightarrow> Vertex \<Rightarrow> ('d::infinity) SPARStwo \<Rightarrow> error + ('d InterfaceData \<times> 'd SPARStwo)" where
  "getData v vp vpp P =
     (if v < length (vertices (g_graph P))
      then (case map_of (vertex_interface_data (vertices (g_graph P) ! v)) (index vp vpp) of
              Some iData \<Rightarrow> Inr (iData, P)
            | None \<Rightarrow>
                Inr (InterfaceData_new,
                     P\<lparr>g_graph := (g_graph P)\<lparr>vertices := (vertices (g_graph P))
                        [v := (vertices (g_graph P) ! v)
                           \<lparr>vertex_interface_data :=
                              AList.update (index vp vpp) InterfaceData_new
                                (vertex_interface_data (vertices (g_graph P) ! v))\<rparr>]\<rparr>\<rparr>))
      else Inl InvalidVertex)"

definition setData ::
  "Vertex \<Rightarrow> Vertex \<Rightarrow> Vertex \<Rightarrow> 'd InterfaceData \<Rightarrow> 'd SPARStwo \<Rightarrow> error + 'd SPARStwo" where
  "setData v vp vpp iData P =
     (if v < length (vertices (g_graph P))
      then Inr (P\<lparr>g_graph := (g_graph P)\<lparr>vertices := (vertices (g_graph P))
                  [v := (vertices (g_graph P) ! v)
                     \<lparr>vertex_interface_data :=
                        AList.update (index vp vpp) iData
                          (vertex_interface_data (vertices (g_graph P) ! v))\<rparr>]\<rparr>\<rparr>)
      else Inl InvalidVertex)"

datatype slot = FirstSlot | SecondSlot

definition slot_of :: "Vertex \<Rightarrow> Vertex \<Rightarrow> slot" where
  "slot_of r rp = (if r < rp then FirstSlot else SecondSlot)"

definition setSlot ::
  "('st, 'd) SpaceInformation \<Rightarrow> Vertex \<Rightarrow> Vertex \<Rightarrow> safeState_ref \<Rightarrow> safeState_ref \<Rightarrow>
     'd InterfaceData \<Rightarrow> 'st memory \<Rightarrow> error + ('d InterfaceData \<times> 'st memory)" where
  "setSlot si r rp q s iData h =
     (case slot_of r rp of
        FirstSlot \<Rightarrow> setFirst si q s iData h
      | SecondSlot \<Rightarrow> setSecond si q s iData h)"

subsection \<open>Abandoning interface information\<close>

text \<open>
  Modelled from the spec: \<open>abandonLists\<close> and \<open>deletePairInfo\<close> are declared in the
  header without a body. \<open>deletePairInfo v\<close> deletes all the states in the lists of
  vertex \<open>v\<close>: every record of its hash is cleared, and stays in the hash as
  \<open>clearInterfaceData\<close> leaves it, with four empty slots. When a new guard is added at \<open>st\<close>,
  \<open>abandonLists st\<close> finds the guards that must abandon their interface information,
  those holding a record with a close point within the visibility range of \<open>st\<close> (metric
  distance at most \<open>sparseDelta_\<close>), and deletes that information.
\<close>

fun clearInterfaceHash ::
  "('d::infinity) InterfaceHash \<Rightarrow> 'st memory \<Rightarrow> error + ('d InterfaceHash \<times> 'st memory)" where
  "clearInterfaceHash [] h = Inr ([], h)"
| "clearInterfaceHash ((k, iData) # rest) h =
     bind_result (clearInterfaceData iData h)
       (\<lambda>(iData', h1). bind_result (clearInterfaceHash rest h1)
       (\<lambda>(rest', h2). Inr ((k, iData') # rest', h2)))"

definition deletePairInfo ::
  "Vertex \<Rightarrow> 'st memory \<Rightarrow> ('d::infinity) SPARStwo \<Rightarrow> error + ('st memory \<times> 'd SPARStwo)" where
  "deletePairInfo v h P =
     (if v < length (vertices (g_graph P))
      then bind_result (clearInterfaceHash (vertex_interface_data (vertices (g_graph P) ! v)) h)
             (\<lambda>(hash', h').
                Inr (h', P\<lparr>g_graph := (g_graph P)\<lparr>vertices := (vertices (g_graph P))
                       [v := (vertices (g_graph P) ! v)\<lparr>vertex_interface_data := hash'\<rparr>]\<rparr>\<rparr>))
      else Inl InvalidVertex)"

definition in_range ::
  "('st, 'd::ord) SpaceInformation \<Rightarrow> 'd \<Rightarrow> State_ptr \<Rightarrow> safeState \<Rightarrow> 'st memory \<Rightarrow> error + bool" where
  "in_range si delta st p h =
     (if p = None then Inr False
      else bind_result (distance si p st h) (\<lambda>dist. Inr (dist \<le> delta)))"

definition record_in_range ::
  "('st, 'd::ord) SpaceInformation \<Rightarrow> 'd \<Rightarrow> State_ptr \<Rightarrow> 'd InterfaceData \<Rightarrow> 'st memory
     \<Rightarrow> error + bool" where
  "record_in_range si delta st iData h =
     bind_result (in_range si delta st (points_first iData) h)
       (\<lambda>b1. bind_result (in_range si delta st (points_second iData) h)
       (\<lambda>b2. Inr (b1 \<or> b2)))"

fun hash_in_range ::
  "('st, 'd::ord) SpaceInformation \<Rightarrow> 'd \<Rightarrow> State_ptr \<Rightarrow> 'd InterfaceHash \<Rightarrow> 'st memory
     \<Rightarrow> error + bool" where
  "hash_in_range si delta st [] h = Inr False"
| "hash_in_range si delta st ((k, iData) # rest) h =
     bind_result (record_in_range si delta st iData h)
       (\<lambda>b. bind_result (hash_in_range si delta st rest h) (\<lambda>bs. Inr (b \<or> bs)))"

fun abandon_guards ::
  "('st, 'd::{ord,infinity}) SpaceInformation \<Rightarrow> State_ptr \<Rightarrow> Vertex list \<Rightarrow> 'st memory \<Rightarrow>
     'd SPARStwo \<Rightarrow> error + ('st memory \<times> 'd SPARStwo)" where
  "abandon_guards si st [] h P = Inr (h, P)"
| "abandon_guards si st (v # vs) h P =
     (if v < length (vertices (g_graph P))
      then bind_result
             (hash_in_range si (sparseDelta P) st
                (vertex_interface_data (vertices (g_graph P) ! v)) h)
             (\<lambda>b. bind_result (if b then deletePairInfo v h P else Inr (h, P))
             (\<lambda>(h', P'). abandon_guards si st vs h' P'))
      else Inl InvalidVertex)"

definition abandonLists ::
  "('st, 'd::{ord,infinity}) SpaceInformation \<Rightarrow> State_ptr \<Rightarrow> 'st memory \<Rightarrow> 'd SPARStwo
     \<Rightarrow> error + ('st memory \<times> 'd SPARStwo)" where
  "abandonLists si st h P =
     abandon_guards si st [0 ..< length (vertices (g_graph P))] h P"

subsection \<open>Growing and clearing the roadmap\<close>

text \<open>
  Modelled from the spec: \<open>addGuard\<close>, \<open>connect\<close>, \<open>resetFailures\<close>, \<open>clearQuery\<close>,
  \<open>freeMemory\<close> and \<open>clear\<close> are declared in the header without a body.
  \<open>addGuard\<close> clones the configuration, creates a vertex, assigns the provenance, runs
  interface abandonment for the new configuration, puts the vertex in a component of
  its own, resets the consecutive-failure counter and returns the new identifier.
  \<open>connect\<close> adds an edge weighted by \<open>distanceFunction\<close> and merges the components
  of its endpoints. \<open>clear\<close> frees every guard's configuration and the configurations
  of every interface record, empties the graph, and clears the query and the counter.
\<close>

definition resetFailures :: "'d SPARStwo \<Rightarrow> 'd SPARStwo" where
  "resetFailures P = P\<lparr>iterations := 0\<rparr>"

definition addGuard ::
  "('st, 'd::{ord,infinity}) SpaceInformation \<Rightarrow> State_ptr \<Rightarrow> GuardType \<Rightarrow> 'st memory \<Rightarrow>
     'd SPARStwo \<Rightarrow> error + (Vertex \<times> 'st memory \<times> 'd SPARStwo)" where
  "addGuard si state type h P =
     bind_result (cloneState state h)
       (\<lambda>(c, h1).
          bind_result
            (abandonLists si state h1
               (P\<lparr>g_graph := (g_graph P)\<lparr>vertices := vertices (g_graph P) @
                      [\<lparr>vertex_state = c, vertex_color = type, vertex_interface_data = []\<rparr>]\<rparr>\<rparr>))
            (\<lambda>(h2, P2).
               Inr (length (vertices (g_graph P)), h2,
                    resetFailures (P2\<lparr>disjointSets := make_set (disjointSets P2)\<rparr>))))"

definition connect ::
  "('st, 'd) SpaceInformation \<Rightarrow> Vertex \<Rightarrow> Vertex \<Rightarrow> 'st memory \<Rightarrow> 'd SPARStwo
     \<Rightarrow> error + 'd SPARStwo" where
  "connect si v vp h P =
     bind_result (distanceFunction si v vp h P)
       (\<lambda>weight.
          uniteComponents v vp
            (P\<lparr>g_graph := (g_graph P)\<lparr>edges := edges (g_graph P) @ [(v, vp, weight)]\<rparr>\<rparr>))"

definition clearQuery :: "'d SPARStwo \<Rightarrow> 'd SPARStwo" where
  "clearQuery P = P\<lparr>startM := [], goalM := []\<rparr>"

fun free_vertices ::
  "('d::infinity) vertex_properties list \<Rightarrow> 'st memory \<Rightarrow> error + 'st memory" where
  "free_vertices [] h = Inr h"
| "free_vertices (vp # rest) h =
     bind_result (clearInterfaceHash (vertex_interface_data vp) h)
       (\<lambda>(hash', h1). bind_result (clearSafeState (vertex_state vp) h1)
       (\<lambda>(st', h2). free_vertices rest h2))"

definition freeMemory ::
  "'st memory \<Rightarrow> ('d::infinity) SPARStwo \<Rightarrow> error + ('st memory \<times> 'd SPARStwo)" where
  "freeMemory h P =
     bind_result (free_vertices (vertices (g_graph P)) h)
       (\<lambda>h'. Inr (h', P\<lparr>g_graph := \<lparr>vertices = [], edges = []\<rparr>,
                         disjointSets := \<lparr>vertex_rank = [], vertex_predecessor = []\<rparr>\<rparr>))"

definition clear ::
  "'st memory \<Rightarrow> ('d::infinity) SPARStwo \<Rightarrow> error + ('st memory \<times> 'd SPARStwo)" where
  "clear h P =
     bind_result (freeMemory h P) (\<lambda>(h', P'). Inr (h', resetFailures (clearQuery P')))"

subsection \<open>Neighbourhoods and the coverage criterion\<close>

text \<open>
  Modelled from the spec: \<open>findGraphNeighbors\<close> and \<open>checkAddCoverage\<close> are declared in
  the header without a body. \<open>findGraphNeighbors st\<close> collects the guards within
  \<open>sparseDelta_\<close> of \<open>st\<close> (the graph neighbourhood) and, among them, those whose local
  path to \<open>st\<close> is feasible (the visible neighbourhood). \<open>checkAddCoverage\<close> adds the
  sample \<open>qNew_\<close> as a guard of type \<open>COVERAGE\<close> when the visible neighbourhood is empty.
\<close>

definition checkMotion ::
  "('st, 'd) SpaceInformation \<Rightarrow> State_ptr \<Rightarrow> State_ptr \<Rightarrow> 'st memory \<Rightarrow> error + bool" where
  "checkMotion si p q h =
     (case (p, q) of
        (Some a, Some b) \<Rightarrow>
          (case (lookup h a, lookup h b) of
             (Some x, Some y) \<Rightarrow> Inr (si_checkMotion si x y)
           | _ \<Rightarrow> Inl InvalidPointer)
      | _ \<Rightarrow> Inl NullPointer)"

fun collect_neighbors ::
  "('st, 'd::ord) SpaceInformation \<Rightarrow> 'd \<Rightarrow> State_ptr \<Rightarrow> 'd vertex_properties list \<Rightarrow>
     Vertex list \<Rightarrow> 'st memory \<Rightarrow> error + (Vertex list \<times> Vertex list)" where
  "collect_neighbors si delta st vps [] h = Inr ([], [])"
| "collect_neighbors si delta st vps (v # rest) h =
     (if v < length vps
      then bind_result (distance si st (vertex_state (vps ! v)) h)
        (\<lambda>dist. bind_result (collect_neighbors si delta st vps rest h)
        (\<lambda>(gn, vn).
           if dist \<le> delta
           then bind_result (checkMotion si st (vertex_state (vps ! v)) h)
                  (\<lambda>visible. Inr (v # gn, if visible then v # vn else vn))
           else Inr (gn, vn)))
      else Inl InvalidVertex)"

definition findGraphNeighbors ::
  "('st, 'd::ord) SpaceInformation \<Rightarrow> State_ptr \<Rightarrow> 'st memory \<Rightarrow> 'd SPARStwo
     \<Rightarrow> error + 'd SPARStwo" where
  "findGraphNeighbors si st h P =
     bind_result
       (collect_neighbors si (sparseDelta P) st (vertices (g_graph P))
          [0 ..< length (vertices (g_graph P))] h)
       (\<lambda>(gn, vn). Inr (P\<lparr>graphNeighborhood := gn, visibleNeighborhood := vn\<rparr>))"

definition checkAddCoverage ::
  "('st, 'd::{ord,infinity}) SpaceInformation \<Rightarrow> 'st memory \<Rightarrow> 'd SPARStwo
     \<Rightarrow> error + (bool \<times> 'st memory \<times> 'd SPARStwo)" where
  "checkAddCoverage si h P =
     (if visibleNeighborhood P \<noteq> [] then Inr (False, h, P)
      else bind_result (addGuard si (qNew P) COVERAGE h P)
             (\<lambda>(m, h', P'). Inr (True, h', P')))"

section \<open>Ownership of configurations\<close>

text \<open>
  A record exclusively owns the configurations in its four slots: the non-null slots
  hold pairwise distinct live addresses. \<open>freed_by p\<close> is what freeing the occupant of a
  slot adds to the trace: nothing when the slot is empty.
\<close>


definition owned_states :: "'d InterfaceData \<Rightarrow> addr list" where
  "owned_states r =
     concat (map (\<lambda>p. case p of None \<Rightarrow> [] | Some a \<Rightarrow> [a])
       [points_first r, points_second r, sigmas_first r, sigmas_second r])"

definition InterfaceData_ok :: "'d InterfaceData \<Rightarrow> 'st memory \<Rightarrow> bool" where
  "InterfaceData_ok r h \<longleftrightarrow>
     distinct (owned_states r) \<and> (\<forall>a \<in> set (owned_states r). lookup h a \<noteq> None)"

definition freed_by :: "safeState \<Rightarrow> event list" where
  "freed_by p = (case p of None \<Rightarrow> [] | Some a \<Rightarrow> [FreeState a])"


text \<open>
  The arguments of an operation are live in a memory \<open>h0\<close> when both are safe states
  outside the record that point to configurations of \<open>h0\<close>. \<open>owns_apart h0 r h\<close>: the
  record owns its configurations in \<open>h\<close>, none of them is a configuration of \<open>h0\<close>, and
  the configurations of \<open>h0\<close> are still there, unchanged.
\<close>

definition outside_live :: "'st memory \<Rightarrow> safeState_ref \<Rightarrow> bool" where
  "outside_live h0 p =
     (case p of
        Outside q \<Rightarrow> (case q of None \<Rightarrow> False | Some a \<Rightarrow> lookup h0 a \<noteq> None)
      | _ \<Rightarrow> False)"

fun args_live :: "'st memory \<Rightarrow> interface_op \<Rightarrow> bool" where
  "args_live h0 (SetFirst p s) = (outside_live h0 p \<and> outside_live h0 s)"
| "args_live h0 (SetSecond p s) = (outside_live h0 p \<and> outside_live h0 s)"
| "args_live h0 ClearInterfaceData = True"

definition owns_apart :: "'st memory \<Rightarrow> 'd InterfaceData \<Rightarrow> 'st memory \<Rightarrow> bool" where
  "owns_apart h0 r h \<longleftrightarrow>
     InterfaceData_ok r h \<and>
     (\<forall>a. lookup h0 a \<noteq> None \<longrightarrow> a \<notin> set (owned_states r) \<and> lookup h a = lookup h0 a)"

section \<open>Sequences of planner operations\<close>

text \<open>
  The operations that change the planner, applied one after the other to the memory and
  the planner, stopping at the first error. \<open>AddCoverage st\<close> is one sampling step that
  ends at the coverage criterion: the sample \<open>st\<close> becomes \<open>qNew_\<close>, its neighbourhoods
  are computed and \<open>checkAddCoverage\<close> decides.
\<close>

datatype 'd roadmap_op =
    AddGuard State_ptr GuardType
  | Connect Vertex Vertex
  | AddCoverage State_ptr
  | Clear
  | ClearQuery
  | SetStretchFactor 'd
  | SetSparseDelta 'd
  | SetDenseDelta 'd
  | SetMaxFailures "32 word"

fun apply_roadmap_op ::
  "('st, 'd::{ord,infinity}) SpaceInformation \<Rightarrow> 'd roadmap_op \<Rightarrow> 'st memory \<times> 'd SPARStwo
     \<Rightarrow> error + ('st memory \<times> 'd SPARStwo)" where
  "apply_roadmap_op si (AddGuard st type) (h, P) =
     bind_result (addGuard si st type h P) (\<lambda>(m, h', P'). Inr (h', P'))"
| "apply_roadmap_op si (Connect v vp) (h, P) =
     bind_result (connect si v vp h P) (\<lambda>P'. Inr (h, P'))"
| "apply_roadmap_op si (AddCoverage st) (h, P) =
     bind_result (findGraphNeighbors si st h (P\<lparr>qNew := st\<rparr>))
       (\<lambda>P1. bind_result (checkAddCoverage si h P1) (\<lambda>(added, h', P'). Inr (h', P')))"
| "apply_roadmap_op si Clear (h, P) = clear h P"
| "apply_roadmap_op si ClearQuery (h, P) = Inr (h, clearQuery P)"
| "apply_roadmap_op si (SetStretchFactor t) (h, P) = Inr (h, setStretchFactor t P)"
| "apply_roadmap_op si (SetSparseDelta D) (h, P) = Inr (h, setSparseDelta D P)"
| "apply_roadmap_op si (SetDenseDelta dd) (h, P) = Inr (h, setDenseDelta dd P)"
| "apply_roadmap_op si (SetMaxFailures m) (h, P) = Inr (h, setMaxFailures m P)"

fun apply_roadmap_ops ::
  "('st, 'd::{ord,infinity}) SpaceInformation \<Rightarrow> 'd roadmap_op list \<Rightarrow> 'st memory \<times> 'd SPARStwo
     \<Rightarrow> error + ('st memory \<times> 'd SPARStwo)" where
  "apply_roadmap_ops si [] hp = Inr hp"
| "apply_roadmap_ops si (x # xs) hp =
     bind_result (apply_roadmap_op si x hp) (apply_roadmap_ops si xs)"



section \<open>Invariants of the roadmap\<close>

text \<open>
  The union-find is well formed when parents stay within the guards, ranks grow strictly
  towards the roots, and the ranks together with the number of roots do not exceed the
  number of guards (so that no rank reaches that number). \<open>roadmap_inv\<close> adds that the
  union-find has one entry for each guard, that edges join existing guards, and that
  two guards have the same root exactly when a path of edges connects them.
  \<open>same_but_interface\<close> relates two planners that differ at most in the interface
  hashes of their guards; \<open>roadmap_grows\<close> says that every guard and every edge of the
  first planner is still there in the second, unchanged.
\<close>

definition uf_ok :: "disjoint_sets \<Rightarrow> bool" where
  "uf_ok ds \<longleftrightarrow>
     length (vertex_rank ds) = length (vertex_predecessor ds) \<and>
     (\<forall>x < length (vertex_predecessor ds).
        vertex_predecessor ds ! x < length (vertex_predecessor ds) \<and>
        (vertex_predecessor ds ! x \<noteq> x \<longrightarrow>
           vertex_rank ds ! x < vertex_rank ds ! (vertex_predecessor ds ! x))) \<and>
     sum_list (vertex_rank ds) +
       card {x. x < length (vertex_predecessor ds) \<and> vertex_predecessor ds ! x = x}
       \<le> length (vertex_predecessor ds)"

definition same_but_interface :: "'d SPARStwo \<Rightarrow> 'd SPARStwo \<Rightarrow> bool" where
  "same_but_interface P P' \<longleftrightarrow>
     (\<exists>vs'. P' = P\<lparr>g_graph := (g_graph P)\<lparr>vertices := vs'\<rparr>\<rparr> \<and>
        length vs' = length (vertices (g_graph P)) \<and>
        (\<forall>i < length vs'.
           vertex_state (vs' ! i) = vertex_state (vertices (g_graph P) ! i) \<and>
           vertex_color (vs' ! i) = vertex_color (vertices (g_graph P) ! i)))"



section \<open>Range and visibility of a guard\<close>

text \<open>
  \<open>configuration h p\<close> is the configuration that the pointer \<open>p\<close> refers to in the memory
  \<open>h\<close>, if it refers to one. A guard is within the sparse range of a configuration when
  their distance is at most \<open>sparseDelta_\<close>, and visible from it when the local path
  between them is feasible.
\<close>

definition configuration :: "'st memory \<Rightarrow> State_ptr \<Rightarrow> 'st option" where
  "configuration h p = (case p of None \<Rightarrow> None | Some a \<Rightarrow> lookup h a)"



section \<open>Abandoned interface information\<close>

text \<open>
  \<open>mem_shrinks h h'\<close>: from \<open>h\<close> to \<open>h'\<close> configurations were only freed, and the trace
  only grew, by \<open>events_since h h'\<close>. A record has a close point in range of \<open>st\<close> when
  one of its two close points refers to a configuration whose distance to the
  configuration of \<open>st\<close> is at most the given one. The close points of a hash are live
  when every non-null close point of its records refers to a configuration, and so does
  \<open>st\<close> if there is one. \<open>guard_outcome\<close> is what abandonment does to the hash of one
  guard: if one of its records has a close point in range, every record of the hash is
  cleared and every configuration they owned was freed, and otherwise the hash is as it
  was.
\<close>

definition mem_shrinks :: "'st memory \<Rightarrow> 'st memory \<Rightarrow> bool" where
  "mem_shrinks h h' \<longleftrightarrow>
     (\<forall>a x. lookup h' a = Some x \<longrightarrow> lookup h a = Some x) \<and>
     (\<exists>t. trace h' = trace h @ t)"

definition events_since :: "'st memory \<Rightarrow> 'st memory \<Rightarrow> event list" where
  "events_since h h' = drop (length (trace h)) (trace h')"

definition close_point_in_range ::
  "('st, 'd::ord) SpaceInformation \<Rightarrow> 'd \<Rightarrow> State_ptr \<Rightarrow> 'd InterfaceData \<Rightarrow> 'st memory \<Rightarrow> bool" where
  "close_point_in_range si delta st iData h \<longleftrightarrow>
     (\<exists>p \<in> {points_first iData, points_second iData}.
        case configuration h p of
          None \<Rightarrow> False
        | Some y \<Rightarrow> (case configuration h st of
                      None \<Rightarrow> False
                    | Some x \<Rightarrow> si_distance si y x \<le> delta))"

definition close_points_live :: "'st memory \<Rightarrow> State_ptr \<Rightarrow> 'd InterfaceHash \<Rightarrow> bool" where
  "close_points_live h st hash \<longleftrightarrow>
     (\<forall>(k, r) \<in> set hash. \<forall>p \<in> {points_first r, points_second r}.
        p \<noteq> None \<longrightarrow> configuration h p \<noteq> None \<and> configuration h st \<noteq> None)"

definition cleared_hash :: "('d::infinity) InterfaceHash \<Rightarrow> 'd InterfaceHash" where
  "cleared_hash hash = map (\<lambda>(k, iData). (k, InterfaceData_new)) hash"

definition guard_outcome ::
  "('st, 'd::{ord,infinity}) SpaceInformation \<Rightarrow> 'd \<Rightarrow> State_ptr \<Rightarrow> 'st memory \<Rightarrow>
     'd InterfaceHash \<Rightarrow> 'st memory \<Rightarrow> 'd InterfaceHash \<Rightarrow> bool" where
  "guard_outcome si delta st h old h' new \<longleftrightarrow>
     (if \<exists>(k, r) \<in> set old. close_point_in_range si delta st r h
      then new = cleared_hash old \<and>
           (\<forall>(k, r) \<in> set old. \<forall>a \<in> set (owned_states r).
              FreeState a \<in> set (events_since h h'))
      else new = old)"

section \<open>Example inputs\<close>

text \<open>
  A one-dimensional configuration space: configurations are integers, the distance is
  the absolute difference, and every motion is feasible. The record and the memory
  \<open>ex_memory2\<close> are what \<open>setFirst\<close> and \<open>setSecond\<close> make of a new record in \<open>ex_memory\<close>.
\<close>

definition ex_si :: "(int, enat) SpaceInformation" where
  "ex_si = \<lparr>si_distance = (\<lambda>x y. enat (nat \<bar>x - y\<bar>)), si_checkMotion = (\<lambda>x y. True)\<rparr>"

definition ex_memory :: "int memory" where
  "ex_memory = \<lparr>cells = [(1, 0), (2, 7)], trace = []\<rparr>"

definition ex_record :: "enat InterfaceData" where
  "ex_record = \<lparr>points_first = Some 3, points_second = Some 5, sigmas_first = Some 4,
                 sigmas_second = Some 6, d_last = enat 7\<rparr>"

definition ex_memory2 :: "int memory" where
  "ex_memory2 = \<lparr>cells = [(6, 0), (5, 7), (4, 7), (3, 0), (1, 0), (2, 7)],
                  trace = [CloneState 1 3, CloneState 2 4, CloneState 2 5, CloneState 1 6]\<rparr>"

text \<open>
  What \<open>setFirst\<close> makes of that record when its first argument is a reference to the
  second close point of the record itself, and its second argument a reference to the
  first close point.
\<close>

definition ex_aliased_record :: "enat InterfaceData" where
  "ex_aliased_record = \<lparr>points_first = Some 7, points_second = Some 5, sigmas_first = Some 8,
                         sigmas_second = Some 6, d_last = enat 0\<rparr>"

definition ex_aliased_memory :: "int memory" where
  "ex_aliased_memory =
     \<lparr>cells = [(8, 7), (7, 7), (6, 0), (5, 7), (1, 0), (2, 7)],
      trace = [CloneState 1 3, CloneState 2 4, CloneState 2 5, CloneState 1 6,
               FreeState 3, CloneState 5 7, FreeState 4, CloneState 7 8]\<rparr>"

definition ex_planner :: "enat SPARStwo" where
  "ex_planner =
     \<lparr>g_graph = \<lparr>vertices = [], edges = []\<rparr>,
      disjointSets = \<lparr>vertex_rank = [], vertex_predecessor = []\<rparr>,
      startM = [], goalM = [],
      stretchFactor = enat 3, sparseDelta = enat 5, denseDelta = enat 1,
      maxFailures = 5000, nearSamplePoints = 2, qNew = None,
      graphNeighborhood = [], visibleNeighborhood = [],
      addedSolution = False, iterations = 0\<rparr>"

text \<open>
  A roadmap with two guards, at the configurations \<open>0\<close> and \<open>10\<close>; the first holds one
  interface record with the close points \<open>4\<close> and \<open>6\<close>. The sample \<open>qNew_\<close> is \<open>5\<close>.
\<close>

definition ex_roadmap_memory :: "int memory" where
  "ex_roadmap_memory = \<lparr>cells = [(1, 0), (2, 10), (3, 4), (4, 6), (5, 5)], trace = []\<rparr>"

definition ex_roadmap :: "enat SPARStwo" where
  "ex_roadmap =
     \<lparr>g_graph =
        \<lparr>vertices =
           [\<lparr>vertex_state = Some 1, vertex_color = START,
             vertex_interface_data =
               [((1, 2), \<lparr>points_first = Some 3, points_second = Some 4, sigmas_first = None,
                          sigmas_second = None, d_last = enat 2\<rparr>)]\<rparr>,
            \<lparr>vertex_state = Some 2, vertex_color = GOAL, vertex_interface_data = []\<rparr>],
         edges = []\<rparr>,
      disjointSets = \<lparr>vertex_rank = [0, 0], vertex_predecessor = [0, 1]\<rparr>,
      startM = [0], goalM = [1],
      stretchFactor = enat 3, sparseDelta = enat 3, denseDelta = enat 1,
      maxFailures = 5000, nearSamplePoints = 2, qNew = Some 5,
      graphNeighborhood = [], visibleNeighborhood = [],
      addedSolution = False, iterations = 7\<rparr>"

text \<open>
  States reached from the empty planner: after adding two guards, after connecting them,
  and after a further sample was added for coverage and connected.
\<close>

definition ex_guards_memory :: "int memory" where
  "ex_guards_memory =
     \<lparr>cells = [(7, 10), (6, 0), (1, 0), (2, 10), (3, 4), (4, 6), (5, 5)],
      trace = [CloneState 1 6, CloneState 2 7]\<rparr>"

definition ex_two_guards :: "enat SPARStwo" where
  "ex_two_guards =
     ex_planner\<lparr>g_graph :=
        \<lparr>vertices =
           [\<lparr>vertex_state = Some 6, vertex_color = START, vertex_interface_data = []\<rparr>,
            \<lparr>vertex_state = Some 7, vertex_color = GOAL, vertex_interface_data = []\<rparr>],
         edges = []\<rparr>,
       disjointSets := \<lparr>vertex_rank = [0, 0], vertex_predecessor = [0, 1]\<rparr>\<rparr>"

definition ex_connected :: "enat SPARStwo" where
  "ex_connected =
     ex_planner\<lparr>g_graph :=
        \<lparr>vertices =
           [\<lparr>vertex_state = Some 6, vertex_color = START, vertex_interface_data = []\<rparr>,
            \<lparr>vertex_state = Some 7, vertex_color = GOAL, vertex_interface_data = []\<rparr>],
         edges = [(0, 1, enat 10)]\<rparr>,
       disjointSets := \<lparr>vertex_rank = [0, 1], vertex_predecessor = [1, 1]\<rparr>\<rparr>"






text \<open>
  The two guards with one interface record each: the close points \<open>4\<close> and \<open>6\<close> of the
  first are within \<open>sparseDelta_ = 3\<close> of the sample \<open>5\<close>, the close point \<open>20\<close> of the
  second is not.
\<close>

definition ex_interfaces_memory :: "int memory" where
  "ex_interfaces_memory =
     \<lparr>cells = [(1, 0), (2, 10), (3, 4), (4, 6), (5, 5), (9, 20)], trace = []\<rparr>"

definition ex_interfaces :: "enat SPARStwo" where
  "ex_interfaces =
     ex_roadmap\<lparr>g_graph :=
        \<lparr>vertices =
           [\<lparr>vertex_state = Some 1, vertex_color = START,
             vertex_interface_data =
               [((1, 2), \<lparr>points_first = Some 3, points_second = Some 4, sigmas_first = None,
                          sigmas_second = None, d_last = enat 2\<rparr>)]\<rparr>,
            \<lparr>vertex_state = Some 2, vertex_color = GOAL,
             vertex_interface_data =
               [((0, 2), \<lparr>points_first = Some 9, points_second = None, sigmas_first = None,
                          sigmas_second = None, d_last = \<infinity>\<rparr>)]\<rparr>],
         edges = []\<rparr>\<rparr>"

definition ex_abandoned_memory :: "int memory" where
  "ex_abandoned_memory =
     \<lparr>cells = [(10, 5), (1, 0), (2, 10), (5, 5), (9, 20)],
      trace = [CloneState 5 10, FreeState 3, FreeState 4]\<rparr>"

definition ex_abandoned :: "enat SPARStwo" where
  "ex_abandoned =
     ex_roadmap\<lparr>g_graph :=
        \<lparr>vertices =
           [\<lparr>vertex_state = Some 1, vertex_color = START,
             vertex_interface_data = [((1, 2), InterfaceData_new)]\<rparr>,
            \<lparr>vertex_state = Some 2, vertex_color = GOAL,
             vertex_interface_data =
               [((0, 2), \<lparr>points_first = Some 9, points_second = None, sigmas_first = None,
                          sigmas_second = None, d_last = \<infinity>\<rparr>)]\<rparr>,
            \<lparr>vertex_state = Some 10, vertex_color = QUALITY, vertex_interface_data = []\<rparr>],
         edges = []\<rparr>,
       disjointSets := \<lparr>vertex_rank = [0, 0, 0], vertex_predecessor = [0, 1, 2]\<rparr>,
       iterations := 0\<rparr>"

section \<open>Basic facts about results and the memory\<close>

lemma bind_result_Inl [simp]: "bind_result (Inl e) f = Inl e"
  by (simp add: bind_result_def)

lemma bind_result_Inr [simp]: "bind_result (Inr x) f = f x"
  by (simp add: bind_result_def)

lemma bind_result_eq_Inr:
  "bind_result m f = Inr y \<longleftrightarrow> (\<exists>x. m = Inr x \<and> f x = Inr y)"
  by (cases m) simp_all

lemma fold_max_ge: "(a::nat) \<le> fold max xs a"
  by (induction xs arbitrary: a) (auto intro: order_trans [OF max.cobounded2])

lemma fold_max_mem: "x \<in> set xs \<Longrightarrow> (x::nat) \<le> fold max xs a"
proof (induction xs arbitrary: a)
  case Nil then show ?case by simp
next
  case (Cons y ys)
  show ?case
  proof (cases "x = y")
    case True
    have "y \<le> max y a" by simp
    also have "\<dots> \<le> fold max ys (max y a)" by (rule fold_max_ge)
    finally show ?thesis using True by simp
  next
    case False
    with Cons.prems have "x \<in> set ys" by simp
    then show ?thesis using Cons.IH by simp
  qed
qed

lemma fresh_addr_not_live: "map_of cs (fresh_addr cs) = None"
proof -
  have "fresh_addr cs \<notin> fst ` set cs"
  proof
    assume "fresh_addr cs \<in> fst ` set cs"
    then have "fresh_addr cs \<in> set (map fst cs)" by simp
    then have "fresh_addr cs \<le> fold max (map fst cs) 0" by (rule fold_max_mem)
    then show False by (simp add: fresh_addr_def)
  qed
  then show ?thesis by (simp add: map_of_eq_None_iff)
qed

lemma map_of_filter_neq:
  "map_of (filter (\<lambda>kv. fst kv \<noteq> a) cs) b = (if b = a then None else map_of cs b)"
  by (induction cs) auto

lemma freeState_eq_Inr:
  "freeState p h = Inr h' \<longleftrightarrow>
     (\<exists>a. p = Some a \<and> lookup h a \<noteq> None \<and>
          h' = h\<lparr>cells := filter (\<lambda>kv. fst kv \<noteq> a) (cells h), trace := trace h @ [FreeState a]\<rparr>)"
  by (auto simp: freeState_def split: option.splits)

lemma cloneState_eq_Inr:
  "cloneState p h = Inr (c, h') \<longleftrightarrow>
     (\<exists>a v. p = Some a \<and> lookup h a = Some v \<and> c = Some (fresh_addr (cells h)) \<and>
          h' = h\<lparr>cells := (fresh_addr (cells h), v) # cells h,
                 trace := trace h @ [CloneState a (fresh_addr (cells h))]\<rparr>)"
  by (auto simp: cloneState_def split: option.splits)

lemma distance_eq_Inr:
  "distance si p q h = Inr d \<longleftrightarrow>
     (\<exists>a b x y. p = Some a \<and> q = Some b \<and> lookup h a = Some x \<and> lookup h b = Some y \<and>
        d = si_distance si x y)"
  by (auto simp: distance_def split: option.splits)

section \<open>The interface data invariant\<close>

lemma d_consistent_new: "d_consistent si InterfaceData_new h"
  by (simp add: d_consistent_def InterfaceData_new_def)

lemma setFirst_d_consistent:
  assumes "setFirst si p s r h = Inr (r', h')" and "d_consistent si r h"
  shows "d_consistent si r' h'"
proof (cases "points_second r")
  case None
  with assms show ?thesis
    by (auto simp: setFirst_def bind_result_eq_Inr d_consistent_def split: if_splits)
next
  case (Some b)
  with assms(1) show ?thesis
    by (auto simp: setFirst_def bind_result_eq_Inr d_consistent_def cloneState_eq_Inr
             split: if_splits)
qed

lemma setSecond_d_consistent:
  assumes "setSecond si p s r h = Inr (r', h')" and "d_consistent si r h"
  shows "d_consistent si r' h'"
proof (cases "points_first r")
  case None
  with assms show ?thesis
    by (auto simp: setSecond_def bind_result_eq_Inr d_consistent_def split: if_splits)
next
  case (Some b)
  with assms(1) show ?thesis
    by (auto simp: setSecond_def bind_result_eq_Inr d_consistent_def cloneState_eq_Inr
             split: if_splits)
qed

lemma clearSafeState_eq_Inr:
  "clearSafeState ss h = Inr (ss', h') \<longleftrightarrow>
     ss' = None \<and> (if ss \<noteq> None then freeState ss h = Inr h' else h' = h)"
  by (auto simp: clearSafeState_def bind_result_eq_Inr)

lemma clearInterfaceData_result:
  assumes "clearInterfaceData r h = Inr (r', h')"
  shows "points_first r' = None \<and> points_second r' = None \<and> sigmas_first r' = None \<and>
         sigmas_second r' = None \<and> d_last r' = \<infinity>"
  using assms
  by (auto simp: clearInterfaceData_def bind_result_eq_Inr clearSafeState_eq_Inr)

lemma clearInterfaceData_d_consistent:
  "clearInterfaceData r h = Inr (r', h') \<Longrightarrow> d_consistent si r' h'"
  by (drule clearInterfaceData_result) (simp add: d_consistent_def)

lemma apply_interface_op_d_consistent:
  "apply_interface_op si x (r, h) = Inr (r', h') \<Longrightarrow> d_consistent si r h \<Longrightarrow>
   d_consistent si r' h'"
  by (cases x)
     (auto intro: setFirst_d_consistent setSecond_d_consistent clearInterfaceData_d_consistent)

lemma apply_interface_ops_d_consistent:
  "apply_interface_ops si xs (r, h) = Inr (r', h') \<Longrightarrow> d_consistent si r h \<Longrightarrow>
   d_consistent si r' h'"
proof (induction xs arbitrary: r h)
  case Nil
  then show ?case by simp
next
  case (Cons x xs)
  from Cons.prems(1) obtain r1 h1 where
    step: "apply_interface_op si x (r, h) = Inr (r1, h1)" and
    rest: "apply_interface_ops si xs (r1, h1) = Inr (r', h')"
    by (auto simp: bind_result_eq_Inr)
  from step Cons.prems(2) have "d_consistent si r1 h1"
    by (rule apply_interface_op_d_consistent)
  with rest show ?case by (rule Cons.IH)
qed

section \<open>Overwriting a slot\<close>

lemma free_if_set:
  assumes "p = None \<or> (\<exists>a. p = Some a \<and> lookup h a \<noteq> None)"
  shows "\<exists>h'. (if p \<noteq> None then freeState p h else Inr h) = Inr h' \<and>
              (\<forall>b. lookup h' b = (if p = Some b then None else lookup h b)) \<and>
              trace h' = trace h @ freed_by p"
proof (cases p)
  case None
  then show ?thesis by (simp add: freed_by_def)
next
  case (Some a)
  with assms have live: "lookup h a \<noteq> None" by simp
  let ?h' = "h\<lparr>cells := filter (\<lambda>kv. fst kv \<noteq> a) (cells h), trace := trace h @ [FreeState a]\<rparr>"
  have "freeState (Some a) h = Inr ?h'"
    using live by (simp add: freeState_eq_Inr)
  moreover have "\<forall>b. lookup ?h' b = (if Some a = Some b then None else lookup h b)"
    by (auto simp: lookup_def map_of_filter_neq)
  ultimately show ?thesis using Some by (simp add: freed_by_def)
qed

lemma clone_live:
  assumes "lookup h a = Some v"
  shows "\<exists>c h'. cloneState (Some a) h = Inr (Some c, h') \<and> lookup h c = None \<and>
                (\<forall>b. lookup h' b = (if b = c then Some v else lookup h b)) \<and>
                trace h' = trace h @ [CloneState a c]"
proof -
  let ?c = "fresh_addr (cells h)"
  let ?h' = "h\<lparr>cells := (?c, v) # cells h, trace := trace h @ [CloneState a ?c]\<rparr>"
  have "cloneState (Some a) h = Inr (Some ?c, ?h')"
    using assms by (simp add: cloneState_eq_Inr)
  moreover have "lookup h ?c = None"
    by (simp add: lookup_def fresh_addr_not_live)
  moreover have "\<forall>b. lookup ?h' b = (if b = ?c then Some v else lookup h b)"
    by (simp add: lookup_def)
  ultimately show ?thesis by auto
qed

lemma clone_result:
  assumes "cloneState q h = Inr (c', h')"
  shows "\<exists>a v c. q = Some a \<and> lookup h a = Some v \<and> c' = Some c \<and> lookup h c = None \<and>
                (\<forall>b. lookup h' b = (if b = c then Some v else lookup h b)) \<and>
                trace h' = trace h @ [CloneState a c]"
proof -
  from assms obtain a v where q: "q = Some a" and v: "lookup h a = Some v"
    by (auto simp: cloneState_eq_Inr)
  from clone_live [OF v] assms q v show ?thesis by auto
qed

lemma InterfaceData_ok_first:
  assumes "InterfaceData_ok r h"
  shows "points_first r = None \<or> (\<exists>a. points_first r = Some a \<and> lookup h a \<noteq> None)"
    and "sigmas_first r = None \<or> (\<exists>a. sigmas_first r = Some a \<and> lookup h a \<noteq> None)"
    and "points_second r = None \<or> (\<exists>a. points_second r = Some a \<and> lookup h a \<noteq> None)"
    and "sigmas_second r = None \<or> (\<exists>a. sigmas_second r = Some a \<and> lookup h a \<noteq> None)"
    and "points_first r = sigmas_first r \<longrightarrow> points_first r = None"
    and "points_first r = points_second r \<longrightarrow> points_first r = None"
    and "points_first r = sigmas_second r \<longrightarrow> points_first r = None"
    and "sigmas_first r = points_second r \<longrightarrow> sigmas_first r = None"
    and "sigmas_first r = sigmas_second r \<longrightarrow> sigmas_first r = None"
    and "points_second r = sigmas_second r \<longrightarrow> points_second r = None"
  using assms
  by (auto simp: InterfaceData_ok_def owned_states_def split: option.splits)

lemma setFirst_result:
  fixes r :: "'d InterfaceData"
  assumes ok: "InterfaceData_ok r h" and run: "setFirst si p s r h = Inr (r', h')"
  shows "\<exists>pa sa c1 c2 x y.
     get p r = Some pa \<and> lookup h pa = Some x \<and> Some pa \<noteq> points_first r \<and>
     get s r' = Some sa \<and> lookup h' sa = Some y \<and>
     (sa \<noteq> c1 \<longrightarrow> get s r = Some sa \<and> lookup h sa = Some y \<and>
                  Some sa \<notin> {points_first r, sigmas_first r}) \<and>
     points_first r' = Some c1 \<and> sigmas_first r' = Some c2 \<and> c1 \<noteq> c2 \<and>
     lookup h' c1 = Some x \<and> lookup h' c2 = Some y \<and>
     (\<forall>a. lookup h a \<noteq> None \<and> Some a \<notin> {points_first r, sigmas_first r} \<longrightarrow>
          a \<noteq> c1 \<and> a \<noteq> c2 \<and> lookup h' a = lookup h a) \<and>
     trace h' = trace h @ freed_by (points_first r) @ [CloneState pa c1] @
                freed_by (sigmas_first r) @ [CloneState sa c2] \<and>
     points_second r' = points_second r \<and> sigmas_second r' = sigmas_second r \<and>
     (if points_second r \<noteq> None
      then distance si (Some c1) (points_second r) h' = Inr (d_last r')
      else d_last r' = d_last r) \<and>
     InterfaceData_ok r' h'"
proof -
  note slots = InterfaceData_ok_first [OF ok]
  from run obtain h1 c1' h2 h3 c2' h4 where
    f1: "(if points_first r \<noteq> None then freeState (points_first r) h else Inr h) = Inr h1" and
    f2: "cloneState (get p r) h1 = Inr (c1', h2)" and
    f3: "(if sigmas_first r \<noteq> None then freeState (sigmas_first r) h2 else Inr h2) = Inr h3" and
    f4: "cloneState (get s (r\<lparr>points_first := c1'\<rparr>)) h3 = Inr (c2', h4)" and
    res: "(if points_second r \<noteq> None
           then bind_result (distance si c1' (points_second r) h4)
                  (\<lambda>d. Inr (r\<lparr>points_first := c1', sigmas_first := c2', d_last := d\<rparr>, h4))
           else Inr (r\<lparr>points_first := c1', sigmas_first := c2'\<rparr>, h4)) = Inr (r', h')"
    by (auto simp: setFirst_def bind_result_eq_Inr cong: if_cong)
  from free_if_set [OF slots(1)] f1 have
    l1: "\<And>b. lookup h1 b = (if points_first r = Some b then None else lookup h b)" and
    t1: "trace h1 = trace h @ freed_by (points_first r)"
    by auto
  from clone_result [OF f2] obtain pa x c1 where
    p: "get p r = Some pa" and x1: "lookup h1 pa = Some x" and c1: "c1' = Some c1" and
    n2: "lookup h1 c1 = None" and
    l2: "\<And>b. lookup h2 b = (if b = c1 then Some x else lookup h1 b)" and
    t2: "trace h2 = trace h1 @ [CloneState pa c1]"
    by blast
  from x1 l1 have x: "lookup h pa = Some x" and pa: "Some pa \<noteq> points_first r"
    by (auto split: if_splits)
  have c1_sig: "Some c1 \<noteq> sigmas_first r"
    using slots(2) slots(5) n2 l1 by (auto split: if_splits)
  have "sigmas_first r = None \<or> (\<exists>a. sigmas_first r = Some a \<and> lookup h2 a \<noteq> None)"
    using slots(2) slots(5) l1 l2 by auto
  from free_if_set [OF this] f3 have
    l3: "\<And>b. lookup h3 b = (if sigmas_first r = Some b then None else lookup h2 b)" and
    t3: "trace h3 = trace h2 @ freed_by (sigmas_first r)"
    by auto
  from clone_result [OF f4] obtain sa y c2 where
    s: "get s (r\<lparr>points_first := c1'\<rparr>) = Some sa" and y3: "lookup h3 sa = Some y" and
    c2: "c2' = Some c2" and n4: "lookup h3 c2 = None" and
    l4: "\<And>b. lookup h4 b = (if b = c2 then Some y else lookup h3 b)" and
    t4: "trace h4 = trace h3 @ [CloneState sa c2]"
    by blast
  have c12: "c1 \<noteq> c2" using n4 l3 l2 c1_sig by (auto split: if_splits)
  have lc1: "lookup h4 c1 = Some x" using l4 l3 l2 c12 c1_sig by auto
  have lc2: "lookup h4 c2 = Some y" using l4 by simp
  have sa2: "sa \<noteq> c2" using y3 n4 by auto
  have lsa: "lookup h4 sa = Some y" using l4 y3 sa2 by simp
  have s_not_sig: "s \<noteq> SigmasFirst"
  proof
    assume "s = SigmasFirst"
    with s have "sigmas_first r = Some sa" by simp
    with l3 [of sa] y3 show False by simp
  qed
  have s_old: "get s r = Some sa \<and> lookup h sa = Some y \<and>
      Some sa \<notin> {points_first r, sigmas_first r}" if "sa \<noteq> c1"
  proof -
    from y3 that have "lookup h sa = Some y" "Some sa \<noteq> points_first r" "Some sa \<noteq> sigmas_first r"
      using l3 [of sa] l2 [of sa] l1 [of sa] by (auto split: if_splits)
    moreover have "get s r = Some sa"
      using s that c1 by (cases s) auto
    ultimately show ?thesis by simp
  qed
  have frame: "a \<noteq> c1 \<and> a \<noteq> c2 \<and> lookup h4 a = lookup h a"
    if "lookup h a \<noteq> None" "Some a \<notin> {points_first r, sigmas_first r}" for a
  proof -
    from that have a1: "lookup h1 a = lookup h a" using l1 by auto
    with that n2 have "a \<noteq> c1" by auto
    with a1 that have a3: "lookup h3 a = lookup h a" using l2 l3 by auto
    with that n4 have "a \<noteq> c2" by auto
    with a3 \<open>a \<noteq> c1\<close> show ?thesis using l4 by auto
  qed
  have tr: "trace h4 = trace h @ freed_by (points_first r) @ [CloneState pa c1] @
                freed_by (sigmas_first r) @ [CloneState sa c2]"
    by (simp add: t1 t2 t3 t4)
  have second: "a \<noteq> c1 \<and> a \<noteq> c2 \<and> lookup h4 a \<noteq> None"
    if "Some a \<in> {points_second r, sigmas_second r}" for a
  proof -
    from that slots(3,4) have l: "lookup h a \<noteq> None" by auto
    from that slots(6,7,8,9) have "Some a \<notin> {points_first r, sigmas_first r}" by auto
    from frame [OF l this] l show ?thesis by simp
  qed
  have ok': "InterfaceData_ok r'' h4"
    if "points_first r'' = Some c1" "sigmas_first r'' = Some c2"
       "points_second r'' = points_second r" "sigmas_second r'' = sigmas_second r" for r'' :: "'d InterfaceData"
  proof -
    have "a \<noteq> c1 \<and> a \<noteq> c2 \<and> lookup h4 a \<noteq> None" if "points_second r = Some a" for a
      using second [of a] that by simp
    moreover have "a \<noteq> c1 \<and> a \<noteq> c2 \<and> lookup h4 a \<noteq> None" if "sigmas_second r = Some a" for a
      using second [of a] that by simp
    ultimately show ?thesis
      using that slots(10) c12 lc1 lc2
      by (auto simp: InterfaceData_ok_def owned_states_def split: option.splits)
  qed
  show ?thesis
  proof (cases "points_second r")
    case None
    with res c1 c2 have r': "r' = r\<lparr>points_first := Some c1, sigmas_first := Some c2\<rparr>"
      and h': "h' = h4" by simp_all
    have "get s r' = Some sa" using s s_not_sig c1 by (cases s) (simp_all add: r')
    moreover have "InterfaceData_ok r' h'" unfolding h' by (rule ok') (simp_all add: r')
    ultimately show ?thesis
      using None p x pa s_old c12 lc1 lc2 lsa frame tr by (auto simp: r' h')
  next
    case (Some b)
    with res c1 c2 obtain d where
      dist: "distance si (Some c1) (Some b) h4 = Inr d" and
      r': "r' = r\<lparr>points_first := Some c1, sigmas_first := Some c2, d_last := d\<rparr>" and
      h': "h' = h4"
      by (auto simp: bind_result_eq_Inr)
    have "get s r' = Some sa" using s s_not_sig c1 by (cases s) (simp_all add: r')
    moreover have "InterfaceData_ok r' h'" unfolding h' by (rule ok') (simp_all add: r')
    ultimately show ?thesis
      using Some p x pa s_old c12 lc1 lc2 lsa frame tr dist by (auto simp: r' h')
  qed
qed

lemma setSecond_result:
  fixes r :: "'d InterfaceData"
  assumes ok: "InterfaceData_ok r h" and run: "setSecond si p s r h = Inr (r', h')"
  shows "\<exists>pa sa c1 c2 x y.
     get p r = Some pa \<and> lookup h pa = Some x \<and> Some pa \<noteq> points_second r \<and>
     get s r' = Some sa \<and> lookup h' sa = Some y \<and>
     (sa \<noteq> c1 \<longrightarrow> get s r = Some sa \<and> lookup h sa = Some y \<and>
                  Some sa \<notin> {points_second r, sigmas_second r}) \<and>
     points_second r' = Some c1 \<and> sigmas_second r' = Some c2 \<and> c1 \<noteq> c2 \<and>
     lookup h' c1 = Some x \<and> lookup h' c2 = Some y \<and>
     (\<forall>a. lookup h a \<noteq> None \<and> Some a \<notin> {points_second r, sigmas_second r} \<longrightarrow>
          a \<noteq> c1 \<and> a \<noteq> c2 \<and> lookup h' a = lookup h a) \<and>
     trace h' = trace h @ freed_by (points_second r) @ [CloneState pa c1] @
                freed_by (sigmas_second r) @ [CloneState sa c2] \<and>
     points_first r' = points_first r \<and> sigmas_first r' = sigmas_first r \<and>
     (if points_first r \<noteq> None
      then distance si (points_first r) (Some c1) h' = Inr (d_last r')
      else d_last r' = d_last r) \<and>
     InterfaceData_ok r' h'"
proof -
  note slots = InterfaceData_ok_first [OF ok]
  from run obtain h1 c1' h2 h3 c2' h4 where
    f1: "(if points_second r \<noteq> None then freeState (points_second r) h else Inr h) = Inr h1" and
    f2: "cloneState (get p r) h1 = Inr (c1', h2)" and
    f3: "(if sigmas_second r \<noteq> None then freeState (sigmas_second r) h2 else Inr h2) = Inr h3" and
    f4: "cloneState (get s (r\<lparr>points_second := c1'\<rparr>)) h3 = Inr (c2', h4)" and
    res: "(if points_first r \<noteq> None
           then bind_result (distance si (points_first r) c1' h4)
                  (\<lambda>d. Inr (r\<lparr>points_second := c1', sigmas_second := c2', d_last := d\<rparr>, h4))
           else Inr (r\<lparr>points_second := c1', sigmas_second := c2'\<rparr>, h4)) = Inr (r', h')"
    by (auto simp: setSecond_def bind_result_eq_Inr cong: if_cong)
  from free_if_set [OF slots(3)] f1 have
    l1: "\<And>b. lookup h1 b = (if points_second r = Some b then None else lookup h b)" and
    t1: "trace h1 = trace h @ freed_by (points_second r)"
    by auto
  from clone_result [OF f2] obtain pa x c1 where
    p: "get p r = Some pa" and x1: "lookup h1 pa = Some x" and c1: "c1' = Some c1" and
    n2: "lookup h1 c1 = None" and
    l2: "\<And>b. lookup h2 b = (if b = c1 then Some x else lookup h1 b)" and
    t2: "trace h2 = trace h1 @ [CloneState pa c1]"
    by blast
  from x1 l1 have x: "lookup h pa = Some x" and pa: "Some pa \<noteq> points_second r"
    by (auto split: if_splits)
  have c1_sig: "Some c1 \<noteq> sigmas_second r"
    using slots(4) slots(10) n2 l1 by (auto split: if_splits)
  have "sigmas_second r = None \<or> (\<exists>a. sigmas_second r = Some a \<and> lookup h2 a \<noteq> None)"
    using slots(4) slots(10) l1 l2 by auto
  from free_if_set [OF this] f3 have
    l3: "\<And>b. lookup h3 b = (if sigmas_second r = Some b then None else lookup h2 b)" and
    t3: "trace h3 = trace h2 @ freed_by (sigmas_second r)"
    by auto
  from clone_result [OF f4] obtain sa y c2 where
    s: "get s (r\<lparr>points_second := c1'\<rparr>) = Some sa" and y3: "lookup h3 sa = Some y" and
    c2: "c2' = Some c2" and n4: "lookup h3 c2 = None" and
    l4: "\<And>b. lookup h4 b = (if b = c2 then Some y else lookup h3 b)" and
    t4: "trace h4 = trace h3 @ [CloneState sa c2]"
    by blast
  have c12: "c1 \<noteq> c2" using n4 l3 l2 c1_sig by (auto split: if_splits)
  have lc1: "lookup h4 c1 = Some x" using l4 l3 l2 c12 c1_sig by auto
  have lc2: "lookup h4 c2 = Some y" using l4 by simp
  have sa2: "sa \<noteq> c2" using y3 n4 by auto
  have lsa: "lookup h4 sa = Some y" using l4 y3 sa2 by simp
  have s_not_sig: "s \<noteq> SigmasSecond"
  proof
    assume "s = SigmasSecond"
    with s have "sigmas_second r = Some sa" by simp
    with l3 [of sa] y3 show False by simp
  qed
  have s_old: "get s r = Some sa \<and> lookup h sa = Some y \<and>
      Some sa \<notin> {points_second r, sigmas_second r}" if "sa \<noteq> c1"
  proof -
    from y3 that have "lookup h sa = Some y" "Some sa \<noteq> points_second r" "Some sa \<noteq> sigmas_second r"
      using l3 [of sa] l2 [of sa] l1 [of sa] by (auto split: if_splits)
    moreover have "get s r = Some sa"
      using s that c1 by (cases s) auto
    ultimately show ?thesis by simp
  qed
  have frame: "a \<noteq> c1 \<and> a \<noteq> c2 \<and> lookup h4 a = lookup h a"
    if "lookup h a \<noteq> None" "Some a \<notin> {points_second r, sigmas_second r}" for a
  proof -
    from that have a1: "lookup h1 a = lookup h a" using l1 by auto
    with that n2 have "a \<noteq> c1" by auto
    with a1 that have a3: "lookup h3 a = lookup h a" using l2 l3 by auto
    with that n4 have "a \<noteq> c2" by auto
    with a3 \<open>a \<noteq> c1\<close> show ?thesis using l4 by auto
  qed
  have tr: "trace h4 = trace h @ freed_by (points_second r) @ [CloneState pa c1] @
                freed_by (sigmas_second r) @ [CloneState sa c2]"
    by (simp add: t1 t2 t3 t4)
  have first: "a \<noteq> c1 \<and> a \<noteq> c2 \<and> lookup h4 a \<noteq> None"
    if "Some a \<in> {points_first r, sigmas_first r}" for a
  proof -
    from that slots(1,2) have l: "lookup h a \<noteq> None" by auto
    from that slots(6,8,7,9) have "Some a \<notin> {points_second r, sigmas_second r}" by auto
    from frame [OF l this] l show ?thesis by simp
  qed
  have ok': "InterfaceData_ok r'' h4"
    if "points_second r'' = Some c1" "sigmas_second r'' = Some c2"
       "points_first r'' = points_first r" "sigmas_first r'' = sigmas_first r" for r'' :: "'d InterfaceData"
  proof -
    have "a \<noteq> c1 \<and> a \<noteq> c2 \<and> lookup h4 a \<noteq> None" if "points_first r = Some a" for a
      using first [of a] that by simp
    moreover have "a \<noteq> c1 \<and> a \<noteq> c2 \<and> lookup h4 a \<noteq> None" if "sigmas_first r = Some a" for a
      using first [of a] that by simp
    ultimately show ?thesis
      using that slots(5) c12 lc1 lc2
      by (auto simp: InterfaceData_ok_def owned_states_def split: option.splits)
  qed
  show ?thesis
  proof (cases "points_first r")
    case None
    with res c1 c2 have r': "r' = r\<lparr>points_second := Some c1, sigmas_second := Some c2\<rparr>"
      and h': "h' = h4" by simp_all
    have "get s r' = Some sa" using s s_not_sig c1 by (cases s) (simp_all add: r')
    moreover have "InterfaceData_ok r' h'" unfolding h' by (rule ok') (simp_all add: r')
    ultimately show ?thesis
      using None p x pa s_old c12 lc1 lc2 lsa frame tr by (auto simp: r' h')
  next
    case (Some b)
    with res c1 c2 obtain d where
      dist: "distance si (Some b) (Some c1) h4 = Inr d" and
      r': "r' = r\<lparr>points_second := Some c1, sigmas_second := Some c2, d_last := d\<rparr>" and
      h': "h' = h4"
      by (auto simp: bind_result_eq_Inr)
    have "get s r' = Some sa" using s s_not_sig c1 by (cases s) (simp_all add: r')
    moreover have "InterfaceData_ok r' h'" unfolding h' by (rule ok') (simp_all add: r')
    ultimately show ?thesis
      using Some p x pa s_old c12 lc1 lc2 lsa frame tr dist by (auto simp: r' h')
  qed
qed

lemma setFirst_runs:
  fixes r :: "'d InterfaceData"
  assumes ok: "InterfaceData_ok r h"
    and p: "get p r = Some pa" "lookup h pa \<noteq> None" "Some pa \<noteq> points_first r"
    and s: "s = PointsFirst \<or>
            (\<exists>sa. get s r = Some sa \<and> lookup h sa \<noteq> None \<and>
                  Some sa \<notin> {points_first r, sigmas_first r})"
  shows "\<exists>r' h'. setFirst si p s r h = Inr (r', h')"
proof -
  note slots = InterfaceData_ok_first [OF ok]
  obtain h1 where
    f1: "(if points_first r \<noteq> None then freeState (points_first r) h else Inr h) = Inr h1" and
    l1: "\<And>b. lookup h1 b = (if points_first r = Some b then None else lookup h b)"
    using free_if_set [OF slots(1)] by blast
  from p obtain x where "lookup h1 pa = Some x" using l1 by auto
  from clone_live [OF this] obtain c1 h2 where
    f2: "cloneState (Some pa) h1 = Inr (Some c1, h2)" and
    n2: "lookup h1 c1 = None" and
    l2: "\<And>b. lookup h2 b = (if b = c1 then Some x else lookup h1 b)"
    by blast
  have "sigmas_first r = None \<or> (\<exists>a. sigmas_first r = Some a \<and> lookup h2 a \<noteq> None)"
    using slots(2) slots(5) l1 l2 by auto
  from free_if_set [OF this] obtain h3 where
    f3: "(if sigmas_first r \<noteq> None then freeState (sigmas_first r) h2 else Inr h2) = Inr h3" and
    l3: "\<And>b. lookup h3 b = (if sigmas_first r = Some b then None else lookup h2 b)"
    by blast
  have c1_sig: "Some c1 \<noteq> sigmas_first r"
    using slots(2) slots(5) n2 l1 by (auto split: if_splits)
  have "\<exists>sa y. get s (r\<lparr>points_first := Some c1\<rparr>) = Some sa \<and> lookup h3 sa = Some y"
  proof (cases "s = PointsFirst")
    case True
    then show ?thesis using l3 [of c1] l2 [of c1] c1_sig by auto
  next
    case False
    with s obtain sa where sa: "get s r = Some sa" "lookup h sa \<noteq> None"
      "Some sa \<notin> {points_first r, sigmas_first r}" by blast
    from sa(2,3) have "lookup h1 sa = lookup h sa" using l1 by auto
    with sa(2) n2 have "sa \<noteq> c1" by auto
    with sa have "lookup h3 sa = lookup h sa" using l1 l2 l3 by auto
    moreover from False sa(1) have "get s (r\<lparr>points_first := Some c1\<rparr>) = Some sa"
      by (cases s) simp_all
    ultimately show ?thesis using sa(2) by auto
  qed
  then obtain sa y where sg: "get s (r\<lparr>points_first := Some c1\<rparr>) = Some sa"
    and "lookup h3 sa = Some y" by blast
  from clone_live [OF this(2)] obtain c2 h4 where
    f4: "cloneState (Some sa) h3 = Inr (Some c2, h4)" and
    n4: "lookup h3 c2 = None" and
    l4: "\<And>b. lookup h4 b = (if b = c2 then Some y else lookup h3 b)"
    by blast
  have c12: "c1 \<noteq> c2" using n4 l3 l2 c1_sig by (auto split: if_splits)
  have lc1: "lookup h4 c1 = Some x" using l4 l3 l2 c12 c1_sig by auto
  show ?thesis
  proof (cases "points_second r")
    case None
    then show ?thesis
      using f1 f2 f3 f4 p(1) sg
      by (auto simp: setFirst_def bind_result_eq_Inr cong: if_cong)
  next
    case (Some b)
    with slots(3) obtain z where zb: "lookup h b = Some z" by auto
    have nb: "Some b \<notin> {points_first r, sigmas_first r}"
      using Some slots(6) slots(8) by auto
    with zb have "lookup h1 b = Some z" using l1 by auto
    with n2 have "b \<noteq> c1" by auto
    with \<open>lookup h1 b = Some z\<close> nb have b3: "lookup h3 b = Some z" using l2 l3 by auto
    with n4 have "b \<noteq> c2" by auto
    with b3 have "lookup h4 b = Some z" using l4 by auto
    with lc1 have dist: "distance si (Some c1) (Some b) h4 = Inr (si_distance si x z)"
      by (simp add: distance_def)
    show ?thesis
      using f1 f2 f3 f4 p(1) sg Some dist
      by (auto simp: setFirst_def bind_result_eq_Inr cong: if_cong)
  qed
qed

lemma setSecond_runs:
  fixes r :: "'d InterfaceData"
  assumes ok: "InterfaceData_ok r h"
    and p: "get p r = Some pa" "lookup h pa \<noteq> None" "Some pa \<noteq> points_second r"
    and s: "s = PointsSecond \<or>
            (\<exists>sa. get s r = Some sa \<and> lookup h sa \<noteq> None \<and>
                  Some sa \<notin> {points_second r, sigmas_second r})"
  shows "\<exists>r' h'. setSecond si p s r h = Inr (r', h')"
proof -
  note slots = InterfaceData_ok_first [OF ok]
  obtain h1 where
    f1: "(if points_second r \<noteq> None then freeState (points_second r) h else Inr h) = Inr h1" and
    l1: "\<And>b. lookup h1 b = (if points_second r = Some b then None else lookup h b)"
    using free_if_set [OF slots(3)] by blast
  from p obtain x where "lookup h1 pa = Some x" using l1 by auto
  from clone_live [OF this] obtain c1 h2 where
    f2: "cloneState (Some pa) h1 = Inr (Some c1, h2)" and
    n2: "lookup h1 c1 = None" and
    l2: "\<And>b. lookup h2 b = (if b = c1 then Some x else lookup h1 b)"
    by blast
  have "sigmas_second r = None \<or> (\<exists>a. sigmas_second r = Some a \<and> lookup h2 a \<noteq> None)"
    using slots(4) slots(10) l1 l2 by auto
  from free_if_set [OF this] obtain h3 where
    f3: "(if sigmas_second r \<noteq> None then freeState (sigmas_second r) h2 else Inr h2) = Inr h3" and
    l3: "\<And>b. lookup h3 b = (if sigmas_second r = Some b then None else lookup h2 b)"
    by blast
  have c1_sig: "Some c1 \<noteq> sigmas_second r"
    using slots(4) slots(10) n2 l1 by (auto split: if_splits)
  have "\<exists>sa y. get s (r\<lparr>points_second := Some c1\<rparr>) = Some sa \<and> lookup h3 sa = Some y"
  proof (cases "s = PointsSecond")
    case True
    then show ?thesis using l3 [of c1] l2 [of c1] c1_sig by auto
  next
    case False
    with s obtain sa where sa: "get s r = Some sa" "lookup h sa \<noteq> None"
      "Some sa \<notin> {points_second r, sigmas_second r}" by blast
    from sa(2,3) have "lookup h1 sa = lookup h sa" using l1 by auto
    with sa(2) n2 have "sa \<noteq> c1" by auto
    with sa have "lookup h3 sa = lookup h sa" using l1 l2 l3 by auto
    moreover from False sa(1) have "get s (r\<lparr>points_second := Some c1\<rparr>) = Some sa"
      by (cases s) simp_all
    ultimately show ?thesis using sa(2) by auto
  qed
  then obtain sa y where sg: "get s (r\<lparr>points_second := Some c1\<rparr>) = Some sa"
    and "lookup h3 sa = Some y" by blast
  from clone_live [OF this(2)] obtain c2 h4 where
    f4: "cloneState (Some sa) h3 = Inr (Some c2, h4)" and
    n4: "lookup h3 c2 = None" and
    l4: "\<And>b. lookup h4 b = (if b = c2 then Some y else lookup h3 b)"
    by blast
  have c12: "c1 \<noteq> c2" using n4 l3 l2 c1_sig by (auto split: if_splits)
  have lc1: "lookup h4 c1 = Some x" using l4 l3 l2 c12 c1_sig by auto
  show ?thesis
  proof (cases "points_first r")
    case None
    then show ?thesis
      using f1 f2 f3 f4 p(1) sg
      by (auto simp: setSecond_def bind_result_eq_Inr cong: if_cong)
  next
    case (Some b)
    with slots(1) obtain z where zb: "lookup h b = Some z" by auto
    have nb: "Some b \<notin> {points_second r, sigmas_second r}"
      using Some slots(6) slots(7) by auto
    with zb have "lookup h1 b = Some z" using l1 by auto
    with n2 have "b \<noteq> c1" by auto
    with \<open>lookup h1 b = Some z\<close> nb have b3: "lookup h3 b = Some z" using l2 l3 by auto
    with n4 have "b \<noteq> c2" by auto
    with b3 have "lookup h4 b = Some z" using l4 by auto
    with lc1 have dist: "distance si (Some b) (Some c1) h4 = Inr (si_distance si z x)"
      by (simp add: distance_def)
    show ?thesis
      using f1 f2 f3 f4 p(1) sg Some dist
      by (auto simp: setSecond_def bind_result_eq_Inr cong: if_cong)
  qed
qed

lemma ex_run_aliased:
  "setFirst ex_si PointsSecond PointsFirst ex_record ex_memory2 =
     Inr (ex_aliased_record, ex_aliased_memory)"
  by (simp add: ex_si_def ex_record_def ex_memory2_def ex_aliased_record_def
      ex_aliased_memory_def setFirst_def cloneState_def freeState_def distance_def lookup_def
      fresh_addr_def)

lemma ex_record_ok: "InterfaceData_ok ex_record ex_memory2"
  by (simp add: InterfaceData_ok_def owned_states_def ex_record_def ex_memory2_def lookup_def)

text \<open>
  Claim C2. Let the record own its configurations, and let a call of \<open>setFirst\<close> with
  any two arguments return. Afterwards the first close point holds a clone of the
  configuration \<open>p\<close> referred to, and the first sigma a clone of the configuration \<open>s\<close>
  refers to, at two distinct addresses that differ from every configuration that was
  live and is not freed. The argument \<open>s\<close> is read after the close point was stored: it
  refers to the configuration it referred to before the call, unchanged, unless it
  refers to the new close point, as a reference to the first close point of the record
  itself does. The trace shows that the previous occupant of each of the two was freed
  before its clone was made, and only if it was non-null; nothing else in memory
  changed; the second slot is untouched; \<open>d_\<close> is the distance between the two close
  points if the second close point is set, and is left as it was otherwise; and the
  record owns its configurations again. \<open>setSecond\<close> does the same with the roles of the
  two slots exchanged. The call does return when \<open>p\<close> refers to a live configuration
  other than the close point of that slot, and \<open>s\<close> is a reference to that close point
  or refers to a live configuration other than the two of that slot.
\<close>

theorem setFirst_setSecond_effect:
  fixes r :: "'d InterfaceData"
  assumes "InterfaceData_ok r h"
  shows "(setFirst si p s r h = Inr (r', h') \<longrightarrow>
      (\<exists>pa sa c1 c2 x y.
         get p r = Some pa \<and> lookup h pa = Some x \<and> Some pa \<noteq> points_first r \<and>
         get s r' = Some sa \<and> lookup h' sa = Some y \<and>
         (sa \<noteq> c1 \<longrightarrow> get s r = Some sa \<and> lookup h sa = Some y \<and>
                      Some sa \<notin> {points_first r, sigmas_first r}) \<and>
         points_first r' = Some c1 \<and> sigmas_first r' = Some c2 \<and> c1 \<noteq> c2 \<and>
         lookup h' c1 = Some x \<and> lookup h' c2 = Some y \<and>
         (\<forall>a. lookup h a \<noteq> None \<and> Some a \<notin> {points_first r, sigmas_first r} \<longrightarrow>
              a \<noteq> c1 \<and> a \<noteq> c2 \<and> lookup h' a = lookup h a) \<and>
         trace h' = trace h @ freed_by (points_first r) @ [CloneState pa c1] @
                    freed_by (sigmas_first r) @ [CloneState sa c2] \<and>
         points_second r' = points_second r \<and> sigmas_second r' = sigmas_second r \<and>
         (if points_second r \<noteq> None
          then distance si (Some c1) (points_second r) h' = Inr (d_last r')
          else d_last r' = d_last r) \<and>
         InterfaceData_ok r' h')) \<and>
    (setSecond si p s r h = Inr (r', h') \<longrightarrow>
      (\<exists>pa sa c1 c2 x y.
         get p r = Some pa \<and> lookup h pa = Some x \<and> Some pa \<noteq> points_second r \<and>
         get s r' = Some sa \<and> lookup h' sa = Some y \<and>
         (sa \<noteq> c1 \<longrightarrow> get s r = Some sa \<and> lookup h sa = Some y \<and>
                      Some sa \<notin> {points_second r, sigmas_second r}) \<and>
         points_second r' = Some c1 \<and> sigmas_second r' = Some c2 \<and> c1 \<noteq> c2 \<and>
         lookup h' c1 = Some x \<and> lookup h' c2 = Some y \<and>
         (\<forall>a. lookup h a \<noteq> None \<and> Some a \<notin> {points_second r, sigmas_second r} \<longrightarrow>
              a \<noteq> c1 \<and> a \<noteq> c2 \<and> lookup h' a = lookup h a) \<and>
         trace h' = trace h @ freed_by (points_second r) @ [CloneState pa c1] @
                    freed_by (sigmas_second r) @ [CloneState sa c2] \<and>
         points_first r' = points_first r \<and> sigmas_first r' = sigmas_first r \<and>
         (if points_first r \<noteq> None
          then distance si (points_first r) (Some c1) h' = Inr (d_last r')
          else d_last r' = d_last r) \<and>
         InterfaceData_ok r' h')) \<and>
    ((\<exists>pa. get p r = Some pa \<and> lookup h pa \<noteq> None \<and> Some pa \<noteq> points_first r) \<and>
     (s = PointsFirst \<or>
      (\<exists>sa. get s r = Some sa \<and> lookup h sa \<noteq> None \<and>
            Some sa \<notin> {points_first r, sigmas_first r})) \<longrightarrow>
     (\<exists>r1 h1. setFirst si p s r h = Inr (r1, h1))) \<and>
    ((\<exists>pa. get p r = Some pa \<and> lookup h pa \<noteq> None \<and> Some pa \<noteq> points_second r) \<and>
     (s = PointsSecond \<or>
      (\<exists>sa. get s r = Some sa \<and> lookup h sa \<noteq> None \<and>
            Some sa \<notin> {points_second r, sigmas_second r})) \<longrightarrow>
     (\<exists>r1 h1. setSecond si p s r h = Inr (r1, h1)))"
proof (intro conjI impI)
  assume "setFirst si p s r h = Inr (r', h')"
  from setFirst_result [OF assms this]
  show "\<exists>pa sa c1 c2 x y.
         get p r = Some pa \<and> lookup h pa = Some x \<and> Some pa \<noteq> points_first r \<and>
         get s r' = Some sa \<and> lookup h' sa = Some y \<and>
         (sa \<noteq> c1 \<longrightarrow> get s r = Some sa \<and> lookup h sa = Some y \<and>
                      Some sa \<notin> {points_first r, sigmas_first r}) \<and>
         points_first r' = Some c1 \<and> sigmas_first r' = Some c2 \<and> c1 \<noteq> c2 \<and>
         lookup h' c1 = Some x \<and> lookup h' c2 = Some y \<and>
         (\<forall>a. lookup h a \<noteq> None \<and> Some a \<notin> {points_first r, sigmas_first r} \<longrightarrow>
              a \<noteq> c1 \<and> a \<noteq> c2 \<and> lookup h' a = lookup h a) \<and>
         trace h' = trace h @ freed_by (points_first r) @ [CloneState pa c1] @
                    freed_by (sigmas_first r) @ [CloneState sa c2] \<and>
         points_second r' = points_second r \<and> sigmas_second r' = sigmas_second r \<and>
         (if points_second r \<noteq> None
          then distance si (Some c1) (points_second r) h' = Inr (d_last r')
          else d_last r' = d_last r) \<and>
         InterfaceData_ok r' h'" .
next
  assume "setSecond si p s r h = Inr (r', h')"
  from setSecond_result [OF assms this]
  show "\<exists>pa sa c1 c2 x y.
         get p r = Some pa \<and> lookup h pa = Some x \<and> Some pa \<noteq> points_second r \<and>
         get s r' = Some sa \<and> lookup h' sa = Some y \<and>
         (sa \<noteq> c1 \<longrightarrow> get s r = Some sa \<and> lookup h sa = Some y \<and>
                      Some sa \<notin> {points_second r, sigmas_second r}) \<and>
         points_second r' = Some c1 \<and> sigmas_second r' = Some c2 \<and> c1 \<noteq> c2 \<and>
         lookup h' c1 = Some x \<and> lookup h' c2 = Some y \<and>
         (\<forall>a. lookup h a \<noteq> None \<and> Some a \<notin> {points_second r, sigmas_second r} \<longrightarrow>
              a \<noteq> c1 \<and> a \<noteq> c2 \<and> lookup h' a = lookup h a) \<and>
         trace h' = trace h @ freed_by (points_second r) @ [CloneState pa c1] @
                    freed_by (sigmas_second r) @ [CloneState sa c2] \<and>
         points_first r' = points_first r \<and> sigmas_first r' = sigmas_first r \<and>
         (if points_first r \<noteq> None
          then distance si (points_first r) (Some c1) h' = Inr (d_last r')
          else d_last r' = d_last r) \<and>
         InterfaceData_ok r' h'" .
next
  assume a: "(\<exists>pa. get p r = Some pa \<and> lookup h pa \<noteq> None \<and> Some pa \<noteq> points_first r) \<and>
     (s = PointsFirst \<or>
      (\<exists>sa. get s r = Some sa \<and> lookup h sa \<noteq> None \<and>
            Some sa \<notin> {points_first r, sigmas_first r}))"
  then obtain pa where "get p r = Some pa" "lookup h pa \<noteq> None" "Some pa \<noteq> points_first r"
    by blast
  from setFirst_runs [OF assms this] a
  show "\<exists>r1 h1. setFirst si p s r h = Inr (r1, h1)" by blast
next
  assume a: "(\<exists>pa. get p r = Some pa \<and> lookup h pa \<noteq> None \<and> Some pa \<noteq> points_second r) \<and>
     (s = PointsSecond \<or>
      (\<exists>sa. get s r = Some sa \<and> lookup h sa \<noteq> None \<and>
            Some sa \<notin> {points_second r, sigmas_second r}))"
  then obtain pa where "get p r = Some pa" "lookup h pa \<noteq> None" "Some pa \<noteq> points_second r"
    by blast
  from setSecond_runs [OF assms this] a
  show "\<exists>r1 h1. setSecond si p s r h = Inr (r1, h1)" by blast
qed

theorem setFirst_setSecond_effect_witness:
  "InterfaceData_ok ex_record ex_memory2 \<and>
   setFirst ex_si PointsSecond PointsFirst ex_record ex_memory2 =
     Inr (ex_aliased_record, ex_aliased_memory) \<and>
   get PointsSecond ex_record = Some 5 \<and> lookup ex_memory2 5 = Some 7 \<and>
   get PointsFirst ex_aliased_record = Some 7 \<and>
   points_first ex_aliased_record = Some 7 \<and> sigmas_first ex_aliased_record = Some 8 \<and>
   lookup ex_aliased_memory 7 = Some 7 \<and> lookup ex_aliased_memory 8 = Some 7 \<and>
   trace ex_aliased_memory =
     trace ex_memory2 @ [FreeState 3, CloneState 5 7, FreeState 4, CloneState 7 8] \<and>
   distance ex_si (Some 7) (Some 5) ex_aliased_memory = Inr (d_last ex_aliased_record) \<and>
   InterfaceData_ok ex_aliased_record ex_aliased_memory \<and>
   (\<exists>r1 h1 c1 c2.
      setSecond ex_si (Outside (Some 1)) (Outside (Some 2)) ex_record ex_memory2 = Inr (r1, h1) \<and>
      points_second r1 = Some c1 \<and> sigmas_second r1 = Some c2 \<and>
      lookup h1 c1 = Some 0 \<and> lookup h1 c2 = Some 7 \<and>
      trace h1 = trace ex_memory2 @ [FreeState 5, CloneState 1 c1, FreeState 6, CloneState 2 c2] \<and>
      points_first r1 = Some 3 \<and> sigmas_first r1 = Some 4 \<and>
      distance ex_si (Some 3) (Some c1) h1 = Inr (d_last r1))"
proof -
  have slots: "points_first ex_record = Some 3" "sigmas_first ex_record = Some 4"
    "points_second ex_record = Some 5" "sigmas_second ex_record = Some 6"
    by (simp_all add: ex_record_def)
  have cells: "lookup ex_memory2 1 = Some 0" "lookup ex_memory2 2 = Some 7"
    "lookup ex_memory2 5 = Some 7"
    by (simp_all add: ex_memory2_def lookup_def)
  have new: "points_first ex_aliased_record = Some 7" "sigmas_first ex_aliased_record = Some 8"
    by (simp_all add: ex_aliased_record_def)
  note first = setFirst_setSecond_effect [OF ex_record_ok, of ex_si PointsSecond PointsFirst
      ex_aliased_record ex_aliased_memory]
  with ex_run_aliased obtain pa sa c1 c2 x y where
    a: "get PointsSecond ex_record = Some pa" "lookup ex_memory2 pa = Some x"
      "get PointsFirst ex_aliased_record = Some sa"
      "points_first ex_aliased_record = Some c1" "sigmas_first ex_aliased_record = Some c2"
      "lookup ex_aliased_memory c1 = Some x" "lookup ex_aliased_memory c2 = Some y"
      "lookup ex_aliased_memory sa = Some y"
      "trace ex_aliased_memory = trace ex_memory2 @ freed_by (points_first ex_record) @
         [CloneState pa c1] @ freed_by (sigmas_first ex_record) @ [CloneState sa c2]"
      "distance ex_si (Some c1) (points_second ex_record) ex_aliased_memory =
         Inr (d_last ex_aliased_record)"
      "InterfaceData_ok ex_aliased_record ex_aliased_memory"
    unfolding slots by fastforce
  from a new slots cells have part1:
    "get PointsSecond ex_record = Some 5 \<and> lookup ex_memory2 5 = Some 7 \<and>
     get PointsFirst ex_aliased_record = Some 7 \<and>
     points_first ex_aliased_record = Some 7 \<and> sigmas_first ex_aliased_record = Some 8 \<and>
     lookup ex_aliased_memory 7 = Some 7 \<and> lookup ex_aliased_memory 8 = Some 7 \<and>
     trace ex_aliased_memory =
       trace ex_memory2 @ [FreeState 3, CloneState 5 7, FreeState 4, CloneState 7 8] \<and>
     distance ex_si (Some 7) (Some 5) ex_aliased_memory = Inr (d_last ex_aliased_record) \<and>
     InterfaceData_ok ex_aliased_record ex_aliased_memory"
    by (simp add: freed_by_def)
  have "\<exists>r1 h1. setSecond ex_si (Outside (Some 1)) (Outside (Some 2)) ex_record ex_memory2 =
      Inr (r1, h1)"
    using setFirst_setSecond_effect [OF ex_record_ok, of ex_si "Outside (Some 1)" "Outside (Some 2)"]
      slots cells
    by simp
  then obtain r1 h1 where
    run2: "setSecond ex_si (Outside (Some 1)) (Outside (Some 2)) ex_record ex_memory2 = Inr (r1, h1)"
    by blast
  from setFirst_setSecond_effect [OF ex_record_ok, of ex_si "Outside (Some 1)" "Outside (Some 2)"
      r1 h1] run2 slots cells
  have "\<exists>c1 c2. points_second r1 = Some c1 \<and> sigmas_second r1 = Some c2 \<and>
      lookup h1 c1 = Some 0 \<and> lookup h1 c2 = Some 7 \<and>
      trace h1 = trace ex_memory2 @ [FreeState 5, CloneState 1 c1, FreeState 6, CloneState 2 c2] \<and>
      points_first r1 = Some 3 \<and> sigmas_first r1 = Some 4 \<and>
      distance ex_si (Some 3) (Some c1) h1 = Inr (d_last r1)"
    by (fastforce simp: freed_by_def)
  with run2 part1 ex_record_ok ex_run_aliased show ?thesis by blast
qed

section \<open>Configuration parameters\<close>

text \<open>
  Claim C10, as stated, fails for \<open>setMaxFailures\<close>: its parameter is an
  \<open>unsigned int\<close>, so the argument \<open>-1\<close> arrives as \<open>4294967295\<close> and that is what
  \<open>getMaxFailures\<close> returns.
\<close>

theorem setMaxFailures_negative_counterexample:
  "uint (getMaxFailures (setMaxFailures (to_unsigned_int (- 1)) ex_planner)) = 4294967295 \<and>
   uint (getMaxFailures (setMaxFailures (to_unsigned_int (- 1)) ex_planner)) \<noteq> - 1"
proof -
  have "uint (word_of_int (- 1) :: 32 word) = (- 1) mod 2 ^ 32"
    by (simp only: uint_word_of_int) simp
  then have "uint (to_unsigned_int (- 1)) = 4294967295"
    by (simp add: to_unsigned_int_def)
  then show ?thesis
    by (simp add: getMaxFailures_def setMaxFailures_def)
qed

text \<open>
  Claim C10, amended. Each of the four setters followed by its getter returns the value
  that was set, for every value of the parameter's type (every \<open>double\<close>, of either sign,
  and every \<open>unsigned int\<close>), with no validation or clamping, and leaves the other three
  parameters and every other member unchanged. An \<open>int\<close> passed to \<open>setMaxFailures\<close>
  is read back modulo \<open>2^32\<close>.
\<close>

theorem setter_getter_roundtrip:
  "getStretchFactor (setStretchFactor t P) = t \<and>
   getSparseDelta (setStretchFactor t P) = getSparseDelta P \<and>
   getDenseDelta (setStretchFactor t P) = getDenseDelta P \<and>
   getMaxFailures (setStretchFactor t P) = getMaxFailures P \<and>
   getSparseDelta (setSparseDelta D P) = D \<and>
   getStretchFactor (setSparseDelta D P) = getStretchFactor P \<and>
   getDenseDelta (setSparseDelta D P) = getDenseDelta P \<and>
   getMaxFailures (setSparseDelta D P) = getMaxFailures P \<and>
   getDenseDelta (setDenseDelta dd P) = dd \<and>
   getStretchFactor (setDenseDelta dd P) = getStretchFactor P \<and>
   getSparseDelta (setDenseDelta dd P) = getSparseDelta P \<and>
   getMaxFailures (setDenseDelta dd P) = getMaxFailures P \<and>
   getMaxFailures (setMaxFailures m P) = m \<and>
   getStretchFactor (setMaxFailures m P) = getStretchFactor P \<and>
   getSparseDelta (setMaxFailures m P) = getSparseDelta P \<and>
   getDenseDelta (setMaxFailures m P) = getDenseDelta P \<and>
   setStretchFactor t P = P\<lparr>stretchFactor := t\<rparr> \<and>
   setSparseDelta D P = P\<lparr>sparseDelta := D\<rparr> \<and>
   setDenseDelta dd P = P\<lparr>denseDelta := dd\<rparr> \<and>
   setMaxFailures m P = P\<lparr>maxFailures := m\<rparr> \<and>
   uint (getMaxFailures (setMaxFailures (to_unsigned_int i) P)) = i mod 2 ^ 32"
  by (simp add: getStretchFactor_def getSparseDelta_def getDenseDelta_def getMaxFailures_def
      setStretchFactor_def setSparseDelta_def setDenseDelta_def setMaxFailures_def
      to_unsigned_int_def uint_word_of_int)

section \<open>Clearing\<close>

lemma clearSafeState_None: "clearSafeState None h = Inr (None, h)"
  by (simp add: clearSafeState_def)

lemma clearSafeState_not_NullPointer: "clearSafeState ss h \<noteq> Inl NullPointer"
  by (cases ss) (auto simp: clearSafeState_def freeState_def bind_result_def
      split: option.splits sum.splits)

lemma clearInterfaceData_new: "clearInterfaceData InterfaceData_new h = Inr (InterfaceData_new, h)"
  by (simp add: clearInterfaceData_def InterfaceData_new_def clearSafeState_None)

lemma clearInterfaceData_eq_new:
  assumes "clearInterfaceData r h = Inr (r', h')"
  shows "r' = InterfaceData_new"
  using clearInterfaceData_result [OF assms] by (simp add: InterfaceData_new_def)

lemma clearInterfaceData_twice:
  "bind_result (clearInterfaceData r h) (\<lambda>(r', h'). clearInterfaceData r' h') =
   clearInterfaceData r h"
proof (cases "clearInterfaceData r h")
  case (Inl e)
  then show ?thesis by simp
next
  case (Inr rh)
  obtain r' h' where rh: "rh = (r', h')" by (cases rh)
  with Inr have "r' = InterfaceData_new" by (simp add: clearInterfaceData_eq_new)
  with Inr rh show ?thesis by (simp add: clearInterfaceData_new)
qed

lemma clearSafeState_live:
  assumes "ss = None \<or> (\<exists>a. ss = Some a \<and> lookup h a \<noteq> None)"
  shows "\<exists>h'. clearSafeState ss h = Inr (None, h') \<and>
              (\<forall>b. lookup h' b = (if ss = Some b then None else lookup h b)) \<and>
              trace h' = trace h @ freed_by ss"
  using free_if_set [OF assms] by (auto simp: clearSafeState_def)

lemma clearInterfaceData_ok:
  assumes ok: "InterfaceData_ok r h"
  shows "\<exists>h'. clearInterfaceData r h = Inr (InterfaceData_new, h') \<and>
           (\<forall>b. lookup h' b = (if b \<in> set (owned_states r) then None else lookup h b)) \<and>
           trace h' = trace h @ freed_by (points_first r) @ freed_by (points_second r) @
                      freed_by (sigmas_first r) @ freed_by (sigmas_second r)"
proof -
  note slots = InterfaceData_ok_first [OF ok]
  from clearSafeState_live [OF slots(1)] obtain h1 where
    c1: "clearSafeState (points_first r) h = Inr (None, h1)" and
    l1: "\<And>b. lookup h1 b = (if points_first r = Some b then None else lookup h b)" and
    t1: "trace h1 = trace h @ freed_by (points_first r)"
    by blast
  have "points_second r = None \<or> (\<exists>a. points_second r = Some a \<and> lookup h1 a \<noteq> None)"
    using slots(3) slots(6) l1 by auto
  from clearSafeState_live [OF this] obtain h2 where
    c2: "clearSafeState (points_second r) h1 = Inr (None, h2)" and
    l2: "\<And>b. lookup h2 b = (if points_second r = Some b then None else lookup h1 b)" and
    t2: "trace h2 = trace h1 @ freed_by (points_second r)"
    by blast
  have "sigmas_first r = None \<or> (\<exists>a. sigmas_first r = Some a \<and> lookup h2 a \<noteq> None)"
    using slots(2) slots(5) slots(8) l1 l2 by auto
  from clearSafeState_live [OF this] obtain h3 where
    c3: "clearSafeState (sigmas_first r) h2 = Inr (None, h3)" and
    l3: "\<And>b. lookup h3 b = (if sigmas_first r = Some b then None else lookup h2 b)" and
    t3: "trace h3 = trace h2 @ freed_by (sigmas_first r)"
    by blast
  have "sigmas_second r = None \<or> (\<exists>a. sigmas_second r = Some a \<and> lookup h3 a \<noteq> None)"
    using slots(4) slots(7) slots(9) slots(10) l1 l2 l3 by auto
  from clearSafeState_live [OF this] obtain h4 where
    c4: "clearSafeState (sigmas_second r) h3 = Inr (None, h4)" and
    l4: "\<And>b. lookup h4 b = (if sigmas_second r = Some b then None else lookup h3 b)" and
    t4: "trace h4 = trace h3 @ freed_by (sigmas_second r)"
    by blast
  have "clearInterfaceData r h = Inr (InterfaceData_new, h4)"
    by (simp add: clearInterfaceData_def c1 c2 c3 c4 InterfaceData_new_def)
  moreover have "\<forall>b. lookup h4 b = (if b \<in> set (owned_states r) then None else lookup h b)"
    by (auto simp: l1 l2 l3 l4 owned_states_def)
  moreover have "trace h4 = trace h @ freed_by (points_first r) @ freed_by (points_second r) @
                      freed_by (sigmas_first r) @ freed_by (sigmas_second r)"
    by (simp add: t1 t2 t3 t4)
  ultimately show ?thesis by blast
qed

lemma clear_result:
  assumes "clear h P = Inr (h', P')"
  shows "g_graph P' = \<lparr>vertices = [], edges = []\<rparr> \<and>
         disjointSets P' = \<lparr>vertex_rank = [], vertex_predecessor = []\<rparr> \<and>
         startM P' = [] \<and> goalM P' = [] \<and> iterations P' = 0"
  using assms
  by (auto simp: clear_def freeMemory_def bind_result_eq_Inr resetFailures_def clearQuery_def)

lemma clear_twice:
  "bind_result (clear h P) (\<lambda>(h', P'). clear h' P') = clear h P"
proof (cases "clear h P")
  case (Inl e)
  then show ?thesis by simp
next
  case (Inr hp)
  obtain h' P' where hp: "hp = (h', P')" by (cases hp)
  from Inr hp obtain h1 where
    "free_vertices (vertices (g_graph P)) h = Inr h1" and
    h': "h' = h1" and
    P': "P' = resetFailures (clearQuery (P\<lparr>g_graph := \<lparr>vertices = [], edges = []\<rparr>,
                         disjointSets := \<lparr>vertex_rank = [], vertex_predecessor = []\<rparr>\<rparr>))"
    by (auto simp: clear_def freeMemory_def bind_result_eq_Inr)
  have "clear h' P' = Inr (h', P')"
    by (simp add: P' clear_def freeMemory_def resetFailures_def clearQuery_def)
  with Inr hp show ?thesis by simp
qed

text \<open>
  Claim C6. A record that owns its configurations is cleared successfully: every non-null
  slot is freed exactly once, in the order of \<open>clearInterfaceData\<close>, null slots are not
  freed, and clearing the result again changes nothing. For any record and memory,
  clearing twice gives the same outcome as clearing once, and a cleared record has all
  four slots null and \<open>d_\<close> infinite. \<open>clearSafeState\<close> on a null slot returns without
  calling \<open>freeState\<close>, and never hands a null pointer to it. Calling \<open>clear\<close> twice gives
  the same outcome as calling it once, and after \<open>clear\<close> the graph is empty.
\<close>

theorem clear_idempotent:
  assumes "InterfaceData_ok r h"
  shows "(\<exists>h'. clearInterfaceData r h = Inr (InterfaceData_new, h') \<and>
            clearInterfaceData InterfaceData_new h' = Inr (InterfaceData_new, h') \<and>
            trace h' = trace h @ freed_by (points_first r) @ freed_by (points_second r) @
                       freed_by (sigmas_first r) @ freed_by (sigmas_second r)) \<and>
         bind_result (clearInterfaceData r0 h0) (\<lambda>(r', h'). clearInterfaceData r' h') =
           clearInterfaceData r0 h0 \<and>
         (\<forall>r' h'. clearInterfaceData r0 h0 = Inr (r', h') \<longrightarrow>
            points_first r' = None \<and> points_second r' = None \<and> sigmas_first r' = None \<and>
            sigmas_second r' = None \<and> d_last r' = \<infinity>) \<and>
         clearSafeState None h0 = Inr (None, h0) \<and>
         clearSafeState ss h0 \<noteq> Inl NullPointer \<and>
         bind_result (clear hm P) (\<lambda>(h', P'). clear h' P') = clear hm P \<and>
         (\<forall>h' P'. clear hm P = Inr (h', P') \<longrightarrow>
            g_graph P' = \<lparr>vertices = [], edges = []\<rparr> \<and> clear h' P' = Inr (h', P'))"
proof -
  from clearInterfaceData_ok [OF assms] obtain h' where
    "clearInterfaceData r h = Inr (InterfaceData_new, h')"
    "trace h' = trace h @ freed_by (points_first r) @ freed_by (points_second r) @
                freed_by (sigmas_first r) @ freed_by (sigmas_second r)"
    by blast
  then have first: "\<exists>h'. clearInterfaceData r h = Inr (InterfaceData_new, h') \<and>
            clearInterfaceData InterfaceData_new h' = Inr (InterfaceData_new, h') \<and>
            trace h' = trace h @ freed_by (points_first r) @ freed_by (points_second r) @
                       freed_by (sigmas_first r) @ freed_by (sigmas_second r)"
    using clearInterfaceData_new by blast
  have again: "clear h' P' = Inr (h', P')" if "clear hm P = Inr (h', P')" for h' P'
    using clear_twice [of hm P] that by simp
  show ?thesis
    using first clearInterfaceData_twice [of r0 h0] clearInterfaceData_result [of r0 h0]
      clearSafeState_None [of h0] clearSafeState_not_NullPointer [of ss h0]
      clear_twice [of hm P] clear_result [of hm P] again
    by blast
qed

theorem clear_idempotent_witness:
  "InterfaceData_ok ex_record ex_memory2 \<and>
   clearInterfaceData ex_record ex_memory2 =
     Inr (InterfaceData_new,
          \<lparr>cells = [(1, 0), (2, 7)],
           trace = [CloneState 1 3, CloneState 2 4, CloneState 2 5, CloneState 1 6,
                    FreeState 3, FreeState 5, FreeState 4, FreeState 6]\<rparr>) \<and>
   clearInterfaceData (InterfaceData_new :: enat InterfaceData)
       (\<lparr>cells = [(1, 0), (2, 7)],
         trace = [CloneState 1 3, CloneState 2 4, CloneState 2 5, CloneState 1 6,
                  FreeState 3, FreeState 5, FreeState 4, FreeState 6]\<rparr> :: int memory) =
     Inr (InterfaceData_new,
          \<lparr>cells = [(1, 0), (2, 7)],
           trace = [CloneState 1 3, CloneState 2 4, CloneState 2 5, CloneState 1 6,
                    FreeState 3, FreeState 5, FreeState 4, FreeState 6]\<rparr>) \<and>
   clear ex_roadmap_memory ex_roadmap =
     Inr (\<lparr>cells = [(5, 5)], trace = [FreeState 3, FreeState 4, FreeState 1, FreeState 2]\<rparr>,
          ex_roadmap\<lparr>g_graph := \<lparr>vertices = [], edges = []\<rparr>,
                     disjointSets := \<lparr>vertex_rank = [], vertex_predecessor = []\<rparr>,
                     startM := [], goalM := [], iterations := 0\<rparr>) \<and>
   clear (\<lparr>cells = [(5, 5)],
           trace = [FreeState 3, FreeState 4, FreeState 1, FreeState 2]\<rparr> :: int memory)
       (ex_roadmap\<lparr>g_graph := \<lparr>vertices = [], edges = []\<rparr>,
                   disjointSets := \<lparr>vertex_rank = [], vertex_predecessor = []\<rparr>,
                   startM := [], goalM := [], iterations := 0\<rparr>) =
     Inr (\<lparr>cells = [(5, 5)], trace = [FreeState 3, FreeState 4, FreeState 1, FreeState 2]\<rparr>,
          ex_roadmap\<lparr>g_graph := \<lparr>vertices = [], edges = []\<rparr>,
                     disjointSets := \<lparr>vertex_rank = [], vertex_predecessor = []\<rparr>,
                     startM := [], goalM := [], iterations := 0\<rparr>)"
proof -
  have ok: "InterfaceData_ok ex_record ex_memory2"
    by (simp add: InterfaceData_ok_def owned_states_def ex_record_def ex_memory2_def lookup_def)
  have c1: "clearInterfaceData ex_record ex_memory2 =
     Inr (InterfaceData_new,
          \<lparr>cells = [(1, 0), (2, 7)],
           trace = [CloneState 1 3, CloneState 2 4, CloneState 2 5, CloneState 1 6,
                    FreeState 3, FreeState 5, FreeState 4, FreeState 6]\<rparr>)"
    by (simp add: clearInterfaceData_def clearSafeState_def freeState_def lookup_def
        ex_record_def ex_memory2_def InterfaceData_new_def)
  have c2: "clear ex_roadmap_memory ex_roadmap =
     Inr (\<lparr>cells = [(5, 5)], trace = [FreeState 3, FreeState 4, FreeState 1, FreeState 2]\<rparr>,
          ex_roadmap\<lparr>g_graph := \<lparr>vertices = [], edges = []\<rparr>,
                     disjointSets := \<lparr>vertex_rank = [], vertex_predecessor = []\<rparr>,
                     startM := [], goalM := [], iterations := 0\<rparr>)"
    by (simp add: clear_def freeMemory_def clearInterfaceData_def clearSafeState_def
        freeState_def lookup_def ex_roadmap_def ex_roadmap_memory_def resetFailures_def
        clearQuery_def)
  from clear_idempotent [OF ok, of ex_record ex_memory2 None ex_roadmap_memory ex_roadmap]
  obtain h' where
    a: "clearInterfaceData ex_record ex_memory2 = Inr (InterfaceData_new, h')" and
    b: "clearInterfaceData (InterfaceData_new :: enat InterfaceData) h' =
          Inr (InterfaceData_new, h')" and
    c: "\<And>h' P'. clear ex_roadmap_memory ex_roadmap = Inr (h', P') \<Longrightarrow>
          clear h' P' = Inr (h', P')"
    by blast
  from a c1 have "h' = \<lparr>cells = [(1, 0), (2, 7)],
           trace = [CloneState 1 3, CloneState 2 4, CloneState 2 5, CloneState 1 6,
                    FreeState 3, FreeState 5, FreeState 4, FreeState 6]\<rparr>"
    by simp
  with b c [OF c2] ok c1 c2 show ?thesis by simp
qed

section \<open>Sequences of operations on a record\<close>

lemma InterfaceData_ok_iff:
  "InterfaceData_ok r h \<longleftrightarrow>
     distinct (owned_states r) \<and> (\<forall>a \<in> set (owned_states r). lookup h a \<noteq> None)"
  by (simp add: InterfaceData_ok_def)

lemma owns_apart_new: "owns_apart h0 InterfaceData_new h0"
  by (simp add: owns_apart_def InterfaceData_ok_def owned_states_def InterfaceData_new_def)

lemma not_owned:
  "a \<notin> set (owned_states r) \<Longrightarrow>
   Some a \<notin> {points_first r, sigmas_first r} \<and> Some a \<notin> {points_second r, sigmas_second r}"
  by (auto simp: owned_states_def)

lemma owned_states_set:
  "set (owned_states r) =
     {a. Some a \<in> {points_first r, points_second r, sigmas_first r, sigmas_second r}}"
  by (auto simp: owned_states_def split: option.splits)

lemma owns_apart_setFirst_step:
  fixes r :: "'d InterfaceData"
  assumes inv: "owns_apart h0 r h" and run: "setFirst si p s r h = Inr (r', h')"
  shows "owns_apart h0 r' h'"
proof -
  from inv have ok: "InterfaceData_ok r h"
    and apart: "\<And>a. lookup h0 a \<noteq> None \<Longrightarrow> a \<notin> set (owned_states r) \<and> lookup h a = lookup h0 a"
    by (simp_all add: owns_apart_def)
  from setFirst_result [OF ok run] obtain c1 c2 where
    slots: "points_first r' = Some c1" "sigmas_first r' = Some c2"
      "points_second r' = points_second r" "sigmas_second r' = sigmas_second r" and
    frame: "\<And>a. lookup h a \<noteq> None \<Longrightarrow> Some a \<notin> {points_first r, sigmas_first r} \<Longrightarrow>
          a \<noteq> c1 \<and> a \<noteq> c2 \<and> lookup h' a = lookup h a" and
    ok': "InterfaceData_ok r' h'"
    by blast
  have "a \<notin> set (owned_states r') \<and> lookup h' a = lookup h0 a"
    if "lookup h0 a \<noteq> None" for a
  proof -
    from apart [OF that] have n: "a \<notin> set (owned_states r)" and l: "lookup h a = lookup h0 a"
      by simp_all
    from n have f: "Some a \<notin> {points_first r, sigmas_first r}"
      and s: "Some a \<notin> {points_second r, sigmas_second r}"
      by (auto dest: not_owned)
    from frame [OF _ f] that l s show ?thesis
      by (auto simp: owned_states_set slots)
  qed
  with ok' show ?thesis by (simp add: owns_apart_def)
qed

lemma owns_apart_setSecond_step:
  fixes r :: "'d InterfaceData"
  assumes inv: "owns_apart h0 r h" and run: "setSecond si p s r h = Inr (r', h')"
  shows "owns_apart h0 r' h'"
proof -
  from inv have ok: "InterfaceData_ok r h"
    and apart: "\<And>a. lookup h0 a \<noteq> None \<Longrightarrow> a \<notin> set (owned_states r) \<and> lookup h a = lookup h0 a"
    by (simp_all add: owns_apart_def)
  from setSecond_result [OF ok run] obtain c1 c2 where
    slots: "points_second r' = Some c1" "sigmas_second r' = Some c2"
      "points_first r' = points_first r" "sigmas_first r' = sigmas_first r" and
    frame: "\<And>a. lookup h a \<noteq> None \<Longrightarrow> Some a \<notin> {points_second r, sigmas_second r} \<Longrightarrow>
          a \<noteq> c1 \<and> a \<noteq> c2 \<and> lookup h' a = lookup h a" and
    ok': "InterfaceData_ok r' h'"
    by blast
  have "a \<notin> set (owned_states r') \<and> lookup h' a = lookup h0 a"
    if "lookup h0 a \<noteq> None" for a
  proof -
    from apart [OF that] have n: "a \<notin> set (owned_states r)" and l: "lookup h a = lookup h0 a"
      by simp_all
    from n have f: "Some a \<notin> {points_second r, sigmas_second r}"
      and s: "Some a \<notin> {points_first r, sigmas_first r}"
      by (auto dest: not_owned)
    from frame [OF _ f] that l s show ?thesis
      by (auto simp: owned_states_set slots)
  qed
  with ok' show ?thesis by (simp add: owns_apart_def)
qed

lemma outside_live_get:
  assumes "owns_apart h0 r h" and "outside_live h0 p"
  shows "\<exists>a. get p r = Some a \<and> lookup h a \<noteq> None \<and> a \<notin> set (owned_states r)"
proof -
  from assms(2) obtain a where "p = Outside (Some a)" "lookup h0 a \<noteq> None"
    by (auto simp: outside_live_def split: safeState_ref.splits option.splits)
  with assms(1) show ?thesis by (auto simp: owns_apart_def)
qed

lemma owns_apart_setFirst:
  fixes r :: "'d InterfaceData"
  assumes inv: "owns_apart h0 r h"
    and a: "outside_live h0 p" and b: "outside_live h0 s"
  shows "\<exists>r' h'. setFirst si p s r h = Inr (r', h') \<and> owns_apart h0 r' h'"
proof -
  from inv have ok: "InterfaceData_ok r h" by (simp add: owns_apart_def)
  from outside_live_get [OF inv a] obtain pa where
    pa: "get p r = Some pa" "lookup h pa \<noteq> None" "pa \<notin> set (owned_states r)" by blast
  from outside_live_get [OF inv b] obtain sa where
    sa: "get s r = Some sa" "lookup h sa \<noteq> None" "sa \<notin> set (owned_states r)" by blast
  from pa(3) have "Some pa \<noteq> points_first r" by (auto dest: not_owned)
  moreover from sa have "s = PointsFirst \<or>
      (\<exists>sa. get s r = Some sa \<and> lookup h sa \<noteq> None \<and>
            Some sa \<notin> {points_first r, sigmas_first r})"
    by (auto dest: not_owned)
  ultimately obtain r' h' where run: "setFirst si p s r h = Inr (r', h')"
    using setFirst_runs [OF ok pa(1,2), of s si] by blast
  from owns_apart_setFirst_step [OF inv run] run show ?thesis by blast
qed

lemma owns_apart_setSecond:
  fixes r :: "'d InterfaceData"
  assumes inv: "owns_apart h0 r h"
    and a: "outside_live h0 p" and b: "outside_live h0 s"
  shows "\<exists>r' h'. setSecond si p s r h = Inr (r', h') \<and> owns_apart h0 r' h'"
proof -
  from inv have ok: "InterfaceData_ok r h" by (simp add: owns_apart_def)
  from outside_live_get [OF inv a] obtain pa where
    pa: "get p r = Some pa" "lookup h pa \<noteq> None" "pa \<notin> set (owned_states r)" by blast
  from outside_live_get [OF inv b] obtain sa where
    sa: "get s r = Some sa" "lookup h sa \<noteq> None" "sa \<notin> set (owned_states r)" by blast
  from pa(3) have "Some pa \<noteq> points_second r" by (auto dest: not_owned)
  moreover from sa have "s = PointsSecond \<or>
      (\<exists>sa. get s r = Some sa \<and> lookup h sa \<noteq> None \<and>
            Some sa \<notin> {points_second r, sigmas_second r})"
    by (auto dest: not_owned)
  ultimately obtain r' h' where run: "setSecond si p s r h = Inr (r', h')"
    using setSecond_runs [OF ok pa(1,2), of s si] by blast
  from owns_apart_setSecond_step [OF inv run] run show ?thesis by blast
qed

lemma owns_apart_clear:
  assumes inv: "owns_apart h0 r h"
  shows "\<exists>r' h'. clearInterfaceData r h = Inr (r', h') \<and> owns_apart h0 r' h'"
proof -
  from inv have ok: "InterfaceData_ok r h"
    and apart: "\<And>a. lookup h0 a \<noteq> None \<Longrightarrow> a \<notin> set (owned_states r) \<and> lookup h a = lookup h0 a"
    by (simp_all add: owns_apart_def)
  from clearInterfaceData_ok [OF ok] obtain h' where
    run: "clearInterfaceData r h = Inr (InterfaceData_new, h')" and
    l: "\<And>b. lookup h' b = (if b \<in> set (owned_states r) then None else lookup h b)"
    by blast
  have "owns_apart h0 InterfaceData_new h'"
    using apart l
    by (simp add: owns_apart_def InterfaceData_ok_def owned_states_def InterfaceData_new_def)
  with run show ?thesis by blast
qed

lemma owns_apart_op:
  assumes "owns_apart h0 r h" and "args_live h0 x"
  shows "\<exists>r' h'. apply_interface_op si x (r, h) = Inr (r', h') \<and> owns_apart h0 r' h'"
proof (cases x)
  case (SetFirst p s)
  with assms(2) have "outside_live h0 p" "outside_live h0 s" by simp_all
  from owns_apart_setFirst [OF assms(1) this, of si] SetFirst show ?thesis by simp
next
  case (SetSecond p s)
  with assms(2) have "outside_live h0 p" "outside_live h0 s" by simp_all
  from owns_apart_setSecond [OF assms(1) this, of si] SetSecond show ?thesis by simp
next
  case ClearInterfaceData
  with owns_apart_clear [OF assms(1)] show ?thesis by simp
qed

lemma owns_apart_ops:
  "owns_apart h0 r h \<Longrightarrow> \<forall>x \<in> set xs. args_live h0 x \<Longrightarrow>
   \<exists>r' h'. apply_interface_ops si xs (r, h) = Inr (r', h') \<and> owns_apart h0 r' h'"
proof (induction xs arbitrary: r h)
  case Nil
  then show ?case by simp
next
  case (Cons x xs)
  from Cons.prems have "args_live h0 x" and rest: "\<forall>x \<in> set xs. args_live h0 x" by simp_all
  from owns_apart_op [OF Cons.prems(1) this(1), of si] obtain r1 h1 where
    step: "apply_interface_op si x (r, h) = Inr (r1, h1)" and inv: "owns_apart h0 r1 h1"
    by blast
  from Cons.IH [OF inv rest] step show ?case by simp
qed

lemma apply_interface_op_ok:
  fixes r :: "('d::infinity) InterfaceData"
  assumes "apply_interface_op si x (r, h) = Inr (r', h')" and "InterfaceData_ok r h"
  shows "InterfaceData_ok r' h'"
proof (cases x)
  case (SetFirst p s)
  with assms(1) have "setFirst si p s r h = Inr (r', h')" by simp
  from setFirst_result [OF assms(2) this] show ?thesis by blast
next
  case (SetSecond p s)
  with assms(1) have "setSecond si p s r h = Inr (r', h')" by simp
  from setSecond_result [OF assms(2) this] show ?thesis by blast
next
  case ClearInterfaceData
  with assms(1) have "r' = InterfaceData_new" by (simp add: clearInterfaceData_eq_new)
  then show ?thesis
    by (simp add: InterfaceData_ok_def owned_states_def InterfaceData_new_def)
qed

lemma apply_interface_ops_ok:
  fixes r :: "('d::infinity) InterfaceData"
  shows "apply_interface_ops si xs (r, h) = Inr (r', h') \<Longrightarrow> InterfaceData_ok r h \<Longrightarrow>
   InterfaceData_ok r' h'"
proof (induction xs arbitrary: r h)
  case Nil
  then show ?case by simp
next
  case (Cons x xs)
  from Cons.prems(1) obtain r1 h1 where
    step: "apply_interface_op si x (r, h) = Inr (r1, h1)" and
    rest: "apply_interface_ops si xs (r1, h1) = Inr (r', h')"
    by (auto simp: bind_result_eq_Inr)
  from step Cons.prems(2) have "InterfaceData_ok r1 h1"
    by (rule apply_interface_op_ok)
  with rest show ?case by (rule Cons.IH)
qed

lemma apply_interface_ops_append:
  "apply_interface_ops si (xs @ ys) rh =
     bind_result (apply_interface_ops si xs rh) (apply_interface_ops si ys)"
proof (induction xs arbitrary: rh)
  case Nil
  then show ?case by simp
next
  case (Cons x xs)
  then show ?case by (cases "apply_interface_op si x rh") simp_all
qed

lemma apply_interface_ops_cleared:
  assumes "apply_interface_ops si (xs @ [ClearInterfaceData]) rh = Inr (r, h)"
  shows "r = InterfaceData_new"
proof -
  from assms obtain r1 h1 where "clearInterfaceData r1 h1 = Inr (r, h)"
    by (auto simp: apply_interface_ops_append bind_result_eq_Inr)
  then show ?thesis by (rule clearInterfaceData_eq_new)
qed

text \<open>
  Claim C1. Start from a freshly constructed \<open>InterfaceData\<close> record, in any memory, and
  apply any sequence of \<open>setFirst\<close>, \<open>setSecond\<close> and \<open>clearInterfaceData\<close> calls, with any
  arguments, references to the members of the record included. Whenever the sequence
  runs without dereferencing an invalid pointer, in the resulting record \<open>d_\<close> is the
  distance between the two current close points when both are non-null, and infinity
  otherwise, and the record owns its configurations; when the last call of the sequence
  is \<open>clearInterfaceData\<close>, the record is as a freshly constructed one. The sequence does
  run so whenever every argument is a safe state outside the record that points to a
  configuration of the initial memory.
\<close>

theorem InterfaceData_d_invariant:
  "(apply_interface_ops si xs (InterfaceData_new, h0) = Inr (r, h) \<longrightarrow>
      d_consistent si r h \<and> InterfaceData_ok r h) \<and>
   (apply_interface_ops si (xs @ [ClearInterfaceData]) (InterfaceData_new, h0) = Inr (r, h) \<longrightarrow>
      r = InterfaceData_new) \<and>
   ((\<forall>x \<in> set xs. args_live h0 x) \<longrightarrow>
      (\<exists>r' h'. apply_interface_ops si xs (InterfaceData_new, h0) = Inr (r', h')))"
proof (intro conjI impI)
  assume run: "apply_interface_ops si xs (InterfaceData_new, h0) = Inr (r, h)"
  then show "d_consistent si r h"
    by (rule apply_interface_ops_d_consistent) (rule d_consistent_new)
  have "InterfaceData_ok InterfaceData_new h0"
    by (simp add: InterfaceData_ok_def owned_states_def InterfaceData_new_def)
  with run show "InterfaceData_ok r h" by (rule apply_interface_ops_ok)
next
  assume "apply_interface_ops si (xs @ [ClearInterfaceData]) (InterfaceData_new, h0) = Inr (r, h)"
  then show "r = InterfaceData_new" by (rule apply_interface_ops_cleared)
next
  assume live: "\<forall>x \<in> set xs. args_live h0 x"
  from owns_apart_ops [OF owns_apart_new live]
  show "\<exists>r' h'. apply_interface_ops si xs (InterfaceData_new, h0) = Inr (r', h')"
    by blast
qed

lemma ex_run_record:
  "apply_interface_ops ex_si
     [SetFirst (Outside (Some 1)) (Outside (Some 2)),
      SetSecond (Outside (Some 2)) (Outside (Some 1))]
     (InterfaceData_new, ex_memory) = Inr (ex_record, ex_memory2)"
  by (simp add: ex_si_def ex_memory_def ex_record_def ex_memory2_def InterfaceData_new_def
      setFirst_def setSecond_def cloneState_def freeState_def distance_def lookup_def
      fresh_addr_def)

lemma ex_run_record_aliased:
  "apply_interface_ops ex_si
     [SetFirst (Outside (Some 1)) (Outside (Some 2)),
      SetSecond (Outside (Some 2)) (Outside (Some 1)),
      SetFirst PointsSecond PointsFirst]
     (InterfaceData_new, ex_memory) = Inr (ex_aliased_record, ex_aliased_memory)"
  by (simp add: ex_si_def ex_memory_def ex_aliased_record_def ex_aliased_memory_def
      InterfaceData_new_def setFirst_def setSecond_def cloneState_def freeState_def
      distance_def lookup_def fresh_addr_def)

theorem InterfaceData_d_invariant_witness:
  "apply_interface_ops ex_si
     [SetFirst (Outside (Some 1)) (Outside (Some 2)),
      SetSecond (Outside (Some 2)) (Outside (Some 1)),
      SetFirst PointsSecond PointsFirst]
     (InterfaceData_new, ex_memory) = Inr (ex_aliased_record, ex_aliased_memory) \<and>
   d_consistent ex_si ex_aliased_record ex_aliased_memory \<and>
   InterfaceData_ok ex_aliased_record ex_aliased_memory \<and>
   distance ex_si (Some 7) (Some 5) ex_aliased_memory = Inr (enat 0) \<and>
   args_live ex_memory (SetFirst (Outside (Some 1)) (Outside (Some 2))) \<and>
   args_live ex_memory (SetSecond (Outside (Some 2)) (Outside (Some 1))) \<and>
   apply_interface_ops ex_si
     [SetFirst (Outside (Some 1)) (Outside (Some 2)),
      SetSecond (Outside (Some 2)) (Outside (Some 1))]
     (InterfaceData_new, ex_memory) = Inr (ex_record, ex_memory2) \<and>
   d_consistent ex_si ex_record ex_memory2 \<and>
   distance ex_si (Some 3) (Some 5) ex_memory2 = Inr (enat 7) \<and>
   (\<exists>h. apply_interface_ops ex_si
          ([SetFirst (Outside (Some 1)) (Outside (Some 2)),
            SetSecond (Outside (Some 2)) (Outside (Some 1))] @ [ClearInterfaceData])
          (InterfaceData_new, ex_memory) = Inr (InterfaceData_new, h))"
proof -
  let ?two = "[SetFirst (Outside (Some 1)) (Outside (Some 2)),
               SetSecond (Outside (Some 2)) (Outside (Some 1))]"
  have live: "args_live ex_memory (SetFirst (Outside (Some 1)) (Outside (Some 2)))"
    "args_live ex_memory (SetSecond (Outside (Some 2)) (Outside (Some 1)))"
    by (simp_all add: outside_live_def ex_memory_def lookup_def)
  from InterfaceData_d_invariant [of ex_si
      "[SetFirst (Outside (Some 1)) (Outside (Some 2)),
        SetSecond (Outside (Some 2)) (Outside (Some 1)),
        SetFirst PointsSecond PointsFirst]" ex_memory ex_aliased_record ex_aliased_memory]
    ex_run_record_aliased
  have d3: "d_consistent ex_si ex_aliased_record ex_aliased_memory"
    "InterfaceData_ok ex_aliased_record ex_aliased_memory" by blast+
  then have dist3: "distance ex_si (Some 7) (Some 5) ex_aliased_memory = Inr (enat 0)"
    by (simp add: d_consistent_def ex_aliased_record_def)
  from InterfaceData_d_invariant [of ex_si ?two ex_memory ex_record ex_memory2] ex_run_record
  have d: "d_consistent ex_si ex_record ex_memory2" by blast
  then have dist: "distance ex_si (Some 3) (Some 5) ex_memory2 = Inr (enat 7)"
    by (simp add: d_consistent_def ex_record_def)
  from clearInterfaceData_ok [OF ex_record_ok] obtain hc where
    "clearInterfaceData ex_record ex_memory2 = Inr (InterfaceData_new, hc)" by blast
  with ex_run_record have
    "apply_interface_ops ex_si (?two @ [ClearInterfaceData]) (InterfaceData_new, ex_memory) =
       Inr (InterfaceData_new, hc)"
    by (simp only: apply_interface_ops_append) simp
  then have cleared: "\<exists>h. apply_interface_ops ex_si (?two @ [ClearInterfaceData])
      (InterfaceData_new, ex_memory) = Inr (InterfaceData_new, h)" by blast
  from ex_run_record_aliased ex_run_record live d d3 dist3 dist cleared show ?thesis
    by simp
qed

section \<open>The union-find\<close>




lemma find_fuel_of_root:
  "x < length p \<Longrightarrow> p ! x = x \<Longrightarrow> find_fuel (Suc k) p x = Inr x"
  by simp












lemma uf_ok_length:
  "uf_ok ds \<Longrightarrow> length (vertex_rank ds) = length (vertex_predecessor ds)"
  by (simp add: uf_ok_def)






section \<open>Effect of the operations on the graph\<close>

lemma same_but_interface_refl: "same_but_interface P P"
  by (auto simp: same_but_interface_def intro!: exI [of _ "vertices (g_graph P)"])

lemma same_but_interface_trans:
  assumes "same_but_interface P P1" and "same_but_interface P1 P2"
  shows "same_but_interface P P2"
proof -
  from assms(1) obtain vs1 where
    P1: "P1 = P\<lparr>g_graph := (g_graph P)\<lparr>vertices := vs1\<rparr>\<rparr>" and
    l1: "length vs1 = length (vertices (g_graph P))" and
    s1: "\<And>i. i < length vs1 \<Longrightarrow>
           vertex_state (vs1 ! i) = vertex_state (vertices (g_graph P) ! i) \<and>
           vertex_color (vs1 ! i) = vertex_color (vertices (g_graph P) ! i)"
    by (auto simp: same_but_interface_def)
  from assms(2) obtain vs2 where
    P2: "P2 = P1\<lparr>g_graph := (g_graph P1)\<lparr>vertices := vs2\<rparr>\<rparr>" and
    l2: "length vs2 = length (vertices (g_graph P1))" and
    s2: "\<And>i. i < length vs2 \<Longrightarrow>
           vertex_state (vs2 ! i) = vertex_state (vertices (g_graph P1) ! i) \<and>
           vertex_color (vs2 ! i) = vertex_color (vertices (g_graph P1) ! i)"
    by (auto simp: same_but_interface_def)
  have "P2 = P\<lparr>g_graph := (g_graph P)\<lparr>vertices := vs2\<rparr>\<rparr>"
    by (simp add: P2 P1)
  moreover have "length vs2 = length (vertices (g_graph P))"
    using l2 l1 by (simp add: P1)
  moreover have "vertex_state (vs2 ! i) = vertex_state (vertices (g_graph P) ! i) \<and>
           vertex_color (vs2 ! i) = vertex_color (vertices (g_graph P) ! i)"
    if "i < length vs2" for i
    using s2 [OF that] s1 [of i] that l2 l1 by (simp add: P1)
  ultimately show ?thesis unfolding same_but_interface_def by blast
qed

lemma deletePairInfo_same:
  assumes "deletePairInfo v h P = Inr (h', P')"
  shows "same_but_interface P P'"
proof -
  from assms obtain hash' where
    v: "v < length (vertices (g_graph P))" and
    P': "P' = P\<lparr>g_graph := (g_graph P)\<lparr>vertices := (vertices (g_graph P))
                       [v := (vertices (g_graph P) ! v)\<lparr>vertex_interface_data := hash'\<rparr>]\<rparr>\<rparr>"
    by (auto simp: deletePairInfo_def bind_result_eq_Inr split: if_splits)
  show ?thesis
    unfolding same_but_interface_def
    by (rule exI [of _ "(vertices (g_graph P))
                       [v := (vertices (g_graph P) ! v)\<lparr>vertex_interface_data := hash'\<rparr>]"])
       (use v in \<open>auto simp: P' nth_list_update\<close>)
qed

lemma abandon_guards_same:
  "abandon_guards si st vs h P = Inr (h', P') \<Longrightarrow> same_but_interface P P'"
proof (induction vs arbitrary: h P)
  case Nil
  then show ?case by (simp add: same_but_interface_refl)
next
  case (Cons v vs)
  from Cons.prems obtain h1 P1 where
    step: "deletePairInfo v h P = Inr (h1, P1) \<or> (h1, P1) = (h, P)" and
    rest: "abandon_guards si st vs h1 P1 = Inr (h', P')"
    by (auto simp: bind_result_eq_Inr split: if_splits)
  from step have "same_but_interface P P1"
    by (auto simp: same_but_interface_refl dest: deletePairInfo_same)
  with Cons.IH [OF rest] show ?case by (blast intro: same_but_interface_trans)
qed

lemma abandonLists_same:
  "abandonLists si st h P = Inr (h', P') \<Longrightarrow> same_but_interface P P'"
  unfolding abandonLists_def by (rule abandon_guards_same)



section \<open>Connectivity\<close>









section \<open>The roadmap invariant is preserved\<close>

















section \<open>Runs of the example\<close>

lemmas ex_eval =
  ex_si_def ex_planner_def ex_roadmap_memory_def ex_guards_memory_def ex_two_guards_def
  ex_connected_def addGuard_def connect_def abandonLists_def cloneState_def freeState_def
  lookup_def fresh_addr_def distanceFunction_def distance_def uniteComponents_def
  union_set_def find_set_def link_def make_set_def resetFailures_def clear_def
  freeMemory_def clearQuery_def clearSafeState_def

lemma ex_run_two_guards:
  "apply_roadmap_ops ex_si [AddGuard (Some 1) START, AddGuard (Some 2) GOAL]
     (ex_roadmap_memory, ex_planner) = Inr (ex_guards_memory, ex_two_guards)"
  by (simp add: ex_eval)




section \<open>Union-find consistency and edge weights\<close>







section \<open>Addressing interface data\<close>

lemma index_commute: "index a b = index b a"
  by (auto simp: index_def)

text \<open>
  Claim C7. For all vertex identifiers \<open>a\<close> and \<open>b\<close>, \<open>index a b\<close> and \<open>index b a\<close> are the
  same key, the pair with the smaller identifier first, so \<open>getData\<close> and \<open>setData\<close>
  address the same record for either order. The slot is chosen by numeric order: the
  side of the lower identifier is the first slot, the side of the higher one the
  second, and the two sides of a pair of different guards never share a slot.
\<close>

theorem index_order_independent:
  "index a b = index b a \<and>
   index a b = (min a b, max a b) \<and>
   getData v a b P = getData v b a P \<and>
   setData v a b iData P = setData v b a iData P \<and>
   (slot_of a b = FirstSlot) = (a < b) \<and>
   slot_of (min a b) (max a b) = (if a = b then SecondSlot else FirstSlot) \<and>
   slot_of (max a b) (min a b) = SecondSlot \<and>
   (slot_of a b = slot_of b a) = (a = b) \<and>
   setSlot si a b q s iData h =
     (if a < b then setFirst si q s iData h else setSecond si q s iData h)"
proof -
  have "index a b = (min a b, max a b)"
    by (auto simp: index_def min_def max_def)
  moreover have "getData v a b P = getData v b a P"
    by (simp add: getData_def index_commute [of a b] cong del: option.case_cong_weak)
  moreover have "setData v a b iData P = setData v b a iData P"
    by (simp add: setData_def index_commute [of a b])
  moreover have "(slot_of a b = slot_of b a) = (a = b)"
    by (auto simp: slot_of_def)
  moreover have "slot_of (min a b) (max a b) = (if a = b then SecondSlot else FirstSlot)"
    by (auto simp: slot_of_def min_def max_def)
  moreover have "slot_of (max a b) (min a b) = SecondSlot"
    by (auto simp: slot_of_def min_def max_def)
  ultimately show ?thesis
    by (simp add: index_commute [of a b] slot_of_def setSlot_def)
qed

section \<open>The coverage criterion\<close>







lemma addGuard_state:
  assumes "addGuard si st ty h P = Inr (m, h', P')"
  shows "\<exists>c h1. cloneState st h = Inr (c, h1) \<and>
           vertex_state (vertices (g_graph P') ! length (vertices (g_graph P))) = c"
proof -
  let ?P1 = "\<lambda>c. P\<lparr>g_graph := (g_graph P)\<lparr>vertices := vertices (g_graph P) @
                      [\<lparr>vertex_state = c, vertex_color = ty, vertex_interface_data = []\<rparr>]\<rparr>\<rparr>"
  from assms obtain c h1 h2 P2 where
    cl: "cloneState st h = Inr (c, h1)" and
    ab: "abandonLists si st h1 (?P1 c) = Inr (h2, P2)" and
    P': "P' = resetFailures (P2\<lparr>disjointSets := make_set (disjointSets P2)\<rparr>)"
    by (auto simp: addGuard_def bind_result_eq_Inr)
  from abandonLists_same [OF ab] obtain vs' where
    P2: "P2 = (?P1 c)\<lparr>g_graph := (g_graph (?P1 c))\<lparr>vertices := vs'\<rparr>\<rparr>" and
    len: "length vs' = length (vertices (g_graph (?P1 c)))" and
    same: "\<And>i. i < length vs' \<Longrightarrow>
           vertex_state (vs' ! i) = vertex_state (vertices (g_graph (?P1 c)) ! i)"
    by (auto simp: same_but_interface_def)
  have "vertices (g_graph P') = vs'"
    by (simp add: P' P2 resetFailures_def)
  moreover have "vertex_state (vs' ! length (vertices (g_graph P))) = c"
    using same [of "length (vertices (g_graph P))"] len by (simp add: nth_append)
  ultimately show ?thesis using cl by simp
qed




section \<open>Interface abandonment\<close>

lemma mem_shrinks_refl: "mem_shrinks h h"
  by (simp add: mem_shrinks_def)

lemma mem_shrinks_trans: "mem_shrinks h h1 \<Longrightarrow> mem_shrinks h1 h2 \<Longrightarrow> mem_shrinks h h2"
  by (auto simp: mem_shrinks_def)

lemma events_since_trans:
  assumes "mem_shrinks h h1" and "mem_shrinks h1 h2"
  shows "events_since h h2 = events_since h h1 @ events_since h1 h2"
  using assms by (auto simp: mem_shrinks_def events_since_def)

lemma clearSafeState_shrinks:
  assumes "clearSafeState ss h = Inr (ss', h')"
  shows "mem_shrinks h h' \<and> events_since h h' = freed_by ss"
proof (cases ss)
  case None
  with assms show ?thesis
    by (simp add: clearSafeState_def mem_shrinks_refl events_since_def freed_by_def)
next
  case (Some a)
  with assms have "freeState (Some a) h = Inr h'"
    by (auto simp: clearSafeState_def bind_result_eq_Inr)
  then have h': "h' = h\<lparr>cells := filter (\<lambda>kv. fst kv \<noteq> a) (cells h),
                          trace := trace h @ [FreeState a]\<rparr>"
    by (auto simp: freeState_eq_Inr)
  show ?thesis
    using Some
    by (auto simp: h' mem_shrinks_def events_since_def freed_by_def lookup_def
        map_of_filter_neq split: if_splits)
qed

lemma owned_states_freed:
  "freed_by (points_first r) @ freed_by (points_second r) @ freed_by (sigmas_first r) @
   freed_by (sigmas_second r) = map FreeState (owned_states r)"
  by (simp add: owned_states_def freed_by_def split: option.splits)

lemma clearInterfaceData_shrinks:
  assumes "clearInterfaceData r h = Inr (r', h')"
  shows "mem_shrinks h h' \<and> events_since h h' = map FreeState (owned_states r) \<and>
         r' = InterfaceData_new"
proof -
  from assms obtain p1 h1 p2 h2 s1 h3 s2 where
    c1: "clearSafeState (points_first r) h = Inr (p1, h1)" and
    c2: "clearSafeState (points_second r) h1 = Inr (p2, h2)" and
    c3: "clearSafeState (sigmas_first r) h2 = Inr (s1, h3)" and
    c4: "clearSafeState (sigmas_second r) h3 = Inr (s2, h')"
    by (auto simp: clearInterfaceData_def bind_result_eq_Inr)
  note s1 = clearSafeState_shrinks [OF c1] and s2 = clearSafeState_shrinks [OF c2]
    and s3 = clearSafeState_shrinks [OF c3] and s4 = clearSafeState_shrinks [OF c4]
  have m2: "mem_shrinks h h2" using s1 s2 by (blast intro: mem_shrinks_trans)
  have m3: "mem_shrinks h h3" using m2 s3 by (blast intro: mem_shrinks_trans)
  have m4: "mem_shrinks h h'" using m3 s4 by (blast intro: mem_shrinks_trans)
  have "events_since h h2 = freed_by (points_first r) @ freed_by (points_second r)"
    using events_since_trans [of h h1 h2] s1 s2 by simp
  then have "events_since h h3 = freed_by (points_first r) @ freed_by (points_second r) @
      freed_by (sigmas_first r)"
    using events_since_trans [OF m2, of h3] s3 by simp
  then have "events_since h h' = freed_by (points_first r) @ freed_by (points_second r) @
      freed_by (sigmas_first r) @ freed_by (sigmas_second r)"
    using events_since_trans [OF m3, of h'] s4 by simp
  with m4 clearInterfaceData_eq_new [OF assms] show ?thesis
    by (simp add: owned_states_freed)
qed

lemma clearInterfaceHash_shrinks:
  "clearInterfaceHash hash h = Inr (hash', h') \<Longrightarrow>
   mem_shrinks h h' \<and> hash' = cleared_hash hash \<and>
   events_since h h' = concat (map (\<lambda>(k, r). map FreeState (owned_states r)) hash)"
proof (induction hash arbitrary: h hash')
  case Nil
  then show ?case by (simp add: mem_shrinks_refl cleared_hash_def events_since_def)
next
  case (Cons kr rest)
  obtain k r where kr: "kr = (k, r)" by (cases kr)
  from Cons.prems kr obtain r' h1 rest' where
    c: "clearInterfaceData r h = Inr (r', h1)" and
    t: "clearInterfaceHash rest h1 = Inr (rest', h')" and
    res: "hash' = (k, r') # rest'"
    by (auto simp: bind_result_eq_Inr)
  note sc = clearInterfaceData_shrinks [OF c] and st = Cons.IH [OF t]
  from sc st have "mem_shrinks h h'" by (blast intro: mem_shrinks_trans)
  moreover have "events_since h h' =
      map FreeState (owned_states r) @ concat (map (\<lambda>(k, r). map FreeState (owned_states r)) rest)"
    using events_since_trans [of h h1 h'] sc st by simp
  ultimately show ?case using sc st res kr by (simp add: cleared_hash_def)
qed

lemma configuration_grows:
  "mem_shrinks h h' \<Longrightarrow> configuration h' p = Some y \<Longrightarrow> configuration h p = Some y"
  by (auto simp: configuration_def mem_shrinks_def split: option.splits)

lemma close_point_in_range_iff:
  "close_point_in_range si delta st r h \<longleftrightarrow>
     (\<exists>p y x. p \<in> {points_first r, points_second r} \<and> configuration h p = Some y \<and>
        configuration h st = Some x \<and> si_distance si y x \<le> delta)"
  by (auto simp: close_point_in_range_def split: option.splits)

lemma close_point_in_range_grows:
  assumes "mem_shrinks h h'" and "close_point_in_range si delta st r h'"
  shows "close_point_in_range si delta st r h"
proof -
  from assms(2) obtain p y x where
    "p \<in> {points_first r, points_second r}" "configuration h' p = Some y"
    "configuration h' st = Some x" "si_distance si y x \<le> delta"
    unfolding close_point_in_range_iff by blast
  with configuration_grows [OF assms(1)] show ?thesis
    unfolding close_point_in_range_iff by blast
qed

lemma in_range_spec:
  assumes "in_range si delta st p h = Inr b"
  shows "(p = None \<and> \<not> b) \<or>
         (\<exists>x y. configuration h p = Some y \<and> configuration h st = Some x \<and>
                b = (si_distance si y x \<le> delta))"
proof (cases "p = None")
  case True
  with assms show ?thesis by (simp add: in_range_def)
next
  case False
  with assms obtain dv where "distance si p st h = Inr dv" "b = (dv \<le> delta)"
    by (auto simp: in_range_def bind_result_eq_Inr)
  then show ?thesis by (auto simp: distance_eq_Inr configuration_def)
qed

lemma record_in_range_spec:
  assumes "record_in_range si delta st r h = Inr b"
  shows "b = close_point_in_range si delta st r h \<and>
         (\<forall>p \<in> {points_first r, points_second r}.
            p \<noteq> None \<longrightarrow> configuration h p \<noteq> None \<and> configuration h st \<noteq> None)"
proof -
  from assms obtain b1 b2 where
    i1: "in_range si delta st (points_first r) h = Inr b1" and
    i2: "in_range si delta st (points_second r) h = Inr b2" and b: "b = (b1 \<or> b2)"
    by (auto simp: record_in_range_def bind_result_eq_Inr)
  note s1 = in_range_spec [OF i1] and s2 = in_range_spec [OF i2]
  have "b1 = (\<exists>y x. configuration h (points_first r) = Some y \<and> configuration h st = Some x \<and>
                  si_distance si y x \<le> delta)"
    using s1 by (auto simp: configuration_def)
  moreover have "b2 = (\<exists>y x. configuration h (points_second r) = Some y \<and>
                  configuration h st = Some x \<and> si_distance si y x \<le> delta)"
    using s2 by (auto simp: configuration_def)
  ultimately have "b = close_point_in_range si delta st r h"
    unfolding close_point_in_range_iff b by auto
  moreover have "configuration h p \<noteq> None \<and> configuration h st \<noteq> None"
    if "p \<in> {points_first r, points_second r}" "p \<noteq> None" for p
    using that s1 s2 by auto
  ultimately show ?thesis by blast
qed

lemma hash_in_range_spec:
  "hash_in_range si delta st hash h = Inr b \<Longrightarrow>
   b = (\<exists>(k, r) \<in> set hash. close_point_in_range si delta st r h) \<and>
   close_points_live h st hash"
proof (induction hash arbitrary: b)
  case Nil
  then show ?case by (simp add: close_points_live_def)
next
  case (Cons kr rest)
  obtain k r where kr: "kr = (k, r)" by (cases kr)
  from Cons.prems kr obtain b1 b2 where
    r: "record_in_range si delta st r h = Inr b1" and
    t: "hash_in_range si delta st rest h = Inr b2" and b: "b = (b1 \<or> b2)"
    by (auto simp: bind_result_eq_Inr)
  from record_in_range_spec [OF r] Cons.IH [OF t] b kr show ?case
    by (simp add: close_points_live_def)
qed

lemma close_points_live_earlier:
  assumes "mem_shrinks h h1" and "close_points_live h1 st hash"
  shows "close_points_live h st hash"
    and "(k, r) \<in> set hash \<Longrightarrow>
         close_point_in_range si delta st r h = close_point_in_range si delta st r h1"
proof -
  note grows = configuration_grows [OF assms(1)]
  show "close_points_live h st hash"
    using assms(2) grows unfolding close_points_live_def by fastforce
  show "close_point_in_range si delta st r h = close_point_in_range si delta st r h1"
    if kr: "(k, r) \<in> set hash"
  proof
    assume "close_point_in_range si delta st r h"
    then obtain p y x where
      p: "p \<in> {points_first r, points_second r}" and y: "configuration h p = Some y" and
      x: "configuration h st = Some x" and d: "si_distance si y x \<le> delta"
      unfolding close_point_in_range_iff by blast
    from y have "p \<noteq> None" by (auto simp: configuration_def split: option.splits)
    with assms(2) kr p obtain y' x' where
      "configuration h1 p = Some y'" "configuration h1 st = Some x'"
      unfolding close_points_live_def by fastforce
    with grows [of p y'] grows [of st x'] y x have
      "configuration h1 p = Some y" "configuration h1 st = Some x" by simp_all
    with p d show "close_point_in_range si delta st r h1"
      unfolding close_point_in_range_iff by blast
  next
    assume "close_point_in_range si delta st r h1"
    with assms(1) show "close_point_in_range si delta st r h"
      by (rule close_point_in_range_grows)
  qed
qed

lemma cleared_hash_not_in_range:
  "\<forall>(k, r) \<in> set (cleared_hash hash). \<not> close_point_in_range si delta st r h"
  by (auto simp: cleared_hash_def close_point_in_range_def InterfaceData_new_def
      configuration_def)

lemma deletePairInfo_effect:
  assumes "deletePairInfo v h P = Inr (h', P')"
  shows "mem_shrinks h h' \<and> same_but_interface P P' \<and>
         (\<forall>u. u \<noteq> v \<longrightarrow> vertices (g_graph P') ! u = vertices (g_graph P) ! u) \<and>
         vertex_interface_data (vertices (g_graph P') ! v) =
           cleared_hash (vertex_interface_data (vertices (g_graph P) ! v)) \<and>
         events_since h h' =
           concat (map (\<lambda>(k, r). map FreeState (owned_states r))
             (vertex_interface_data (vertices (g_graph P) ! v)))"
proof -
  from assms obtain hash' where
    v: "v < length (vertices (g_graph P))" and
    c: "clearInterfaceHash (vertex_interface_data (vertices (g_graph P) ! v)) h = Inr (hash', h')" and
    P': "P' = P\<lparr>g_graph := (g_graph P)\<lparr>vertices := (vertices (g_graph P))
                       [v := (vertices (g_graph P) ! v)\<lparr>vertex_interface_data := hash'\<rparr>]\<rparr>\<rparr>"
    by (auto simp: deletePairInfo_def bind_result_eq_Inr split: if_splits)
  from clearInterfaceHash_shrinks [OF c] deletePairInfo_same [OF assms] v show ?thesis
    by (simp add: P')
qed

lemma same_but_interface_sparseDelta:
  "same_but_interface P P' \<Longrightarrow> sparseDelta P' = sparseDelta P"
  by (auto simp: same_but_interface_def)

lemma guard_outcome_earlier:
  assumes h: "mem_shrinks h h1" and h1: "mem_shrinks h1 h'"
    and live: "close_points_live h1 st old"
    and out: "guard_outcome si delta st h1 old h' new"
  shows "guard_outcome si delta st h old h' new"
proof -
  have ev: "set (events_since h1 h') \<subseteq> set (events_since h h')"
    using events_since_trans [OF h h1] by auto
  have same: "(\<exists>(k, r) \<in> set old. close_point_in_range si delta st r h) =
      (\<exists>(k, r) \<in> set old. close_point_in_range si delta st r h1)"
    using close_points_live_earlier(2) [OF h live, of _ _ si delta] by fastforce
  show ?thesis
  proof (cases "\<exists>(k, r) \<in> set old. close_point_in_range si delta st r h1")
    case True
    with out have "new = cleared_hash old"
      "\<forall>(k, r) \<in> set old. \<forall>a \<in> set (owned_states r). FreeState a \<in> set (events_since h1 h')"
      by (simp_all add: guard_outcome_def)
    with ev have "new = cleared_hash old \<and>
      (\<forall>(k, r) \<in> set old. \<forall>a \<in> set (owned_states r). FreeState a \<in> set (events_since h h'))"
      by fastforce
    with True same show ?thesis by (simp add: guard_outcome_def)
  next
    case False
    with out have "new = old" by (simp add: guard_outcome_def)
    with False same show ?thesis by (simp add: guard_outcome_def)
  qed
qed

lemma abandon_guards_effect:
  "abandon_guards si st vs h P = Inr (h', P') \<Longrightarrow> distinct vs \<Longrightarrow>
   mem_shrinks h h' \<and>
   (\<forall>u. u \<notin> set vs \<longrightarrow> vertices (g_graph P') ! u = vertices (g_graph P) ! u) \<and>
   (\<forall>v \<in> set vs.
      close_points_live h st (vertex_interface_data (vertices (g_graph P) ! v)) \<and>
      guard_outcome si (sparseDelta P) st h (vertex_interface_data (vertices (g_graph P) ! v))
        h' (vertex_interface_data (vertices (g_graph P') ! v)))"
proof (induction vs arbitrary: h P)
  case Nil
  then show ?case by (simp add: mem_shrinks_refl)
next
  case (Cons v vs)
  let ?hash = "\<lambda>Q u. vertex_interface_data (vertices (g_graph Q) ! u)"
  from Cons.prems(1) have v: "v < length (vertices (g_graph P))"
    by (auto split: if_splits)
  with Cons.prems(1) obtain b h1 P1 where
    b: "hash_in_range si (sparseDelta P) st (?hash P v) h = Inr b" and
    step: "(b \<and> deletePairInfo v h P = Inr (h1, P1)) \<or> (\<not> b \<and> (h1, P1) = (h, P))" and
    rest: "abandon_guards si st vs h1 P1 = Inr (h', P')"
    by (auto simp: bind_result_eq_Inr split: if_splits)
  from hash_in_range_spec [OF b] have
    bs: "b = (\<exists>(k, r) \<in> set (?hash P v). close_point_in_range si (sparseDelta P) st r h)" and
    lv: "close_points_live h st (?hash P v)"
    by simp_all
  from Cons.prems(2) have vs: "v \<notin> set vs" "distinct vs" by simp_all
  from step have s1: "mem_shrinks h h1"
    and others: "\<And>u. u \<noteq> v \<Longrightarrow> vertices (g_graph P1) ! u = vertices (g_graph P) ! u"
    and delta: "sparseDelta P1 = sparseDelta P"
    and mine: "guard_outcome si (sparseDelta P) st h (?hash P v) h1 (?hash P1 v)"
  proof -
    show "mem_shrinks h h1"
      using step by (auto simp: mem_shrinks_refl dest: deletePairInfo_effect)
    show "vertices (g_graph P1) ! u = vertices (g_graph P) ! u" if "u \<noteq> v" for u
      using step that by (auto dest: deletePairInfo_effect)
    show "sparseDelta P1 = sparseDelta P"
      using step by (auto dest!: deletePairInfo_same same_but_interface_sparseDelta)
    show "guard_outcome si (sparseDelta P) st h (?hash P v) h1 (?hash P1 v)"
    proof (cases b)
      case True
      with step have d: "deletePairInfo v h P = Inr (h1, P1)" by simp
      from deletePairInfo_effect [OF d] have
        "?hash P1 v = cleared_hash (?hash P v)"
        "events_since h h1 =
           concat (map (\<lambda>(k, r). map FreeState (owned_states r)) (?hash P v))"
        by simp_all
      moreover from True bs have
        "\<exists>(k, r) \<in> set (?hash P v). close_point_in_range si (sparseDelta P) st r h" by simp
      ultimately show ?thesis by (fastforce simp: guard_outcome_def)
    next
      case False
      with step bs show ?thesis by (simp add: guard_outcome_def)
    qed
  qed
  from Cons.IH [OF rest vs(2)] have s2: "mem_shrinks h1 h'"
    and untouched: "\<And>u. u \<notin> set vs \<Longrightarrow> vertices (g_graph P') ! u = vertices (g_graph P1) ! u"
    and later: "\<And>u. u \<in> set vs \<Longrightarrow>
        close_points_live h1 st (?hash P1 u) \<and>
        guard_outcome si (sparseDelta P1) st h1 (?hash P1 u) h' (?hash P' u)"
    by auto
  have "mem_shrinks h h'" using s1 s2 by (rule mem_shrinks_trans)
  moreover have "vertices (g_graph P') ! u = vertices (g_graph P) ! u" if "u \<notin> set (v # vs)" for u
    using that untouched [of u] others [of u] by simp
  moreover have "close_points_live h st (?hash P u) \<and>
      guard_outcome si (sparseDelta P) st h (?hash P u) h' (?hash P' u)"
    if "u \<in> set (v # vs)" for u
  proof (cases "u = v")
    case True
    have ev: "set (events_since h h1) \<subseteq> set (events_since h h')"
      using events_since_trans [OF s1 s2] by auto
    from mine ev have "guard_outcome si (sparseDelta P) st h (?hash P v) h' (?hash P1 v)"
      unfolding guard_outcome_def by (auto split: if_splits) fastforce
    with True untouched [OF vs(1)] lv show ?thesis by simp
  next
    case False
    with that have u: "u \<in> set vs" by simp
    from later [OF u] others [OF False] delta
    have l1: "close_points_live h1 st (?hash P u)"
      and o1: "guard_outcome si (sparseDelta P) st h1 (?hash P u) h' (?hash P' u)" by simp_all
    from close_points_live_earlier(1) [OF s1 l1] guard_outcome_earlier [OF s1 s2 l1 o1]
    show ?thesis by simp
  qed
  ultimately show ?case by blast
qed

lemma guard_outcome_not_in_range:
  assumes "guard_outcome si delta st h old h' new"
  shows "\<forall>(k, r) \<in> set new. \<not> close_point_in_range si delta st r h"
proof (cases "\<exists>(k, r) \<in> set old. close_point_in_range si delta st r h")
  case True
  with assms have "new = cleared_hash old" by (simp add: guard_outcome_def)
  then show ?thesis by (simp add: cleared_hash_not_in_range)
next
  case False
  with assms have "new = old" by (simp add: guard_outcome_def)
  with False show ?thesis by auto
qed

lemma close_point_in_range_cong:
  "configuration h st = configuration h st' \<Longrightarrow>
   close_point_in_range si delta st r h = close_point_in_range si delta st' r h"
  unfolding close_point_in_range_iff by simp

text \<open>
  Claim C5. When \<open>addGuard\<close> has created a guard at \<open>st\<close>, the configuration of the new
  guard is a clone of the configuration of \<open>st\<close>, made in a memory \<open>h1\<close>, and interface
  abandonment has run from \<open>h1\<close>: no record of any guard has a close point within
  \<open>sparseDelta_\<close> of that configuration any more, neither in \<open>h1\<close> nor in the memory that
  results. A close point is within range when the distance between the configuration it
  refers to and the configuration of \<open>st\<close> is at most \<open>sparseDelta_\<close>; every non-null
  close point of every record referred to a configuration when it was tested. For every
  guard that was there before, if one of its records had a close point in range, all
  its records are cleared and every configuration they owned has been freed, and
  otherwise its hash is untouched.
\<close>

theorem abandonment_correct:
  assumes "addGuard si st ty h P = Inr (m, h', P')"
  shows "\<exists>c h1.
     cloneState st h = Inr (c, h1) \<and> mem_shrinks h1 h' \<and>
     vertex_state (vertices (g_graph P') ! milestoneCount P) = c \<and>
     configuration h st \<noteq> None \<and> configuration h1 st = configuration h st \<and>
     configuration h1 c = configuration h st \<and>
     (\<forall>v < milestoneCount P'.
        \<forall>(k, r) \<in> set (vertex_interface_data (vertices (g_graph P') ! v)).
          \<not> close_point_in_range si (sparseDelta P') st r h1 \<and>
          \<not> close_point_in_range si (sparseDelta P') c r h1 \<and>
          \<not> close_point_in_range si (sparseDelta P') st r h') \<and>
     (\<forall>v < milestoneCount P.
        close_points_live h1 st (vertex_interface_data (vertices (g_graph P) ! v)) \<and>
        guard_outcome si (sparseDelta P) st h1
          (vertex_interface_data (vertices (g_graph P) ! v)) h'
          (vertex_interface_data (vertices (g_graph P') ! v)))"
proof -
  let ?n = "length (vertices (g_graph P))"
  let ?hash = "\<lambda>Q u. vertex_interface_data (vertices (g_graph Q) ! u)"
  define P1 where "P1 = (\<lambda>c. P\<lparr>g_graph := (g_graph P)\<lparr>vertices := vertices (g_graph P) @
                      [\<lparr>vertex_state = c, vertex_color = ty, vertex_interface_data = []\<rparr>]\<rparr>\<rparr>)"
  from assms obtain c h1 P2 where
    cl: "cloneState st h = Inr (c, h1)" and
    ab: "abandonLists si st h1 (P1 c) = Inr (h', P2)" and
    P': "P' = resetFailures (P2\<lparr>disjointSets := make_set (disjointSets P2)\<rparr>)"
    by (auto simp: addGuard_def bind_result_eq_Inr P1_def)
  from addGuard_state [OF assms] cl have
    st: "vertex_state (vertices (g_graph P') ! milestoneCount P) = c"
    by (simp add: milestoneCount_def)
  from clone_result [OF cl] obtain a x ca where
    a: "st = Some a" "lookup h a = Some x" "c = Some ca" "lookup h ca = None" and
    l1: "\<And>b. lookup h1 b = (if b = ca then Some x else lookup h b)"
    by blast
  from a have "a \<noteq> ca" by auto
  with a l1 have cf: "configuration h st \<noteq> None" "configuration h1 st = configuration h st"
    "configuration h1 c = configuration h st"
    by (simp_all add: configuration_def)
  have len1: "length (vertices (g_graph (P1 c))) = Suc ?n" by (simp add: P1_def)
  from ab have ag: "abandon_guards si st [0 ..< Suc ?n] h1 (P1 c) = Inr (h', P2)"
    by (simp add: abandonLists_def len1)
  note eff = abandon_guards_effect [OF ag distinct_upt]
  from eff have sh: "mem_shrinks h1 h'" by blast
  have out: "close_points_live h1 st (?hash (P1 c) v) \<and>
      guard_outcome si (sparseDelta (P1 c)) st h1 (?hash (P1 c) v) h' (?hash P2 v)"
    if "v < Suc ?n" for v
  proof -
    from that have "v \<in> set [0 ..< Suc ?n]" by (simp only: set_upt atLeastLessThan_iff) simp
    with eff show ?thesis by blast
  qed
  from abandonLists_same [OF ab] have
    delta2: "sparseDelta P2 = sparseDelta (P1 c)" and
    len2: "length (vertices (g_graph P2)) = Suc ?n"
    by (auto simp: same_but_interface_def len1)
  have delta: "sparseDelta (P1 c) = sparseDelta P" by (simp add: P1_def)
  have g': "g_graph P' = g_graph P2" "sparseDelta P' = sparseDelta P"
    by (simp_all add: P' resetFailures_def delta2 delta)
  have old: "?hash (P1 c) v = ?hash P v" if "v < ?n" for v
    using that by (simp add: P1_def nth_append)
  have "\<forall>(k, r) \<in> set (?hash P' v).
          \<not> close_point_in_range si (sparseDelta P') st r h1 \<and>
          \<not> close_point_in_range si (sparseDelta P') c r h1 \<and>
          \<not> close_point_in_range si (sparseDelta P') st r h'"
    if "v < milestoneCount P'" for v
  proof -
    from that have "v < Suc ?n" by (simp add: milestoneCount_def g' len2)
    from out [OF this] have
      "guard_outcome si (sparseDelta P') st h1 (?hash (P1 c) v) h' (?hash P' v)"
      by (simp add: g' delta)
    from guard_outcome_not_in_range [OF this] have
      n1: "\<forall>(k, r) \<in> set (?hash P' v). \<not> close_point_in_range si (sparseDelta P') st r h1" .
    have "\<not> close_point_in_range si (sparseDelta P') c r h1 \<and>
          \<not> close_point_in_range si (sparseDelta P') st r h'"
      if kr: "(k, r) \<in> set (?hash P' v)" for k r
    proof -
      from n1 kr have n: "\<not> close_point_in_range si (sparseDelta P') st r h1" by auto
      from cf have "configuration h1 c = configuration h1 st" by simp
      from close_point_in_range_cong [OF this, of si "sparseDelta P'" r] n
      have "\<not> close_point_in_range si (sparseDelta P') c r h1" by simp
      moreover from n close_point_in_range_grows [OF sh]
      have "\<not> close_point_in_range si (sparseDelta P') st r h'" by blast
      ultimately show ?thesis by simp
    qed
    with n1 show ?thesis by auto
  qed
  moreover have "close_points_live h1 st (?hash P v) \<and>
      guard_outcome si (sparseDelta P) st h1 (?hash P v) h' (?hash P' v)"
    if "v < milestoneCount P" for v
  proof -
    from that have v: "v < ?n" by (simp add: milestoneCount_def)
    with out [of v] old [OF v] show ?thesis by (simp add: g' delta)
  qed
  ultimately show ?thesis using cl sh st cf by blast
qed

lemma ex_run_abandon:
  "addGuard ex_si (Some 5) QUALITY ex_interfaces_memory ex_interfaces =
     Inr (2, ex_abandoned_memory, ex_abandoned)"
  by (simp add: ex_eval ex_roadmap_def ex_interfaces_def ex_interfaces_memory_def
      ex_abandoned_def ex_abandoned_memory_def abandonLists_def deletePairInfo_def
      record_in_range_def in_range_def clearInterfaceData_def InterfaceData_new_def upt_rec)

theorem abandonment_correct_witness:
  "addGuard ex_si (Some 5) QUALITY ex_interfaces_memory ex_interfaces =
     Inr (2, ex_abandoned_memory, ex_abandoned) \<and>
   close_point_in_range ex_si (sparseDelta ex_interfaces) (Some 5)
     \<lparr>points_first = Some 3, points_second = Some 4, sigmas_first = None,
      sigmas_second = None, d_last = enat 2\<rparr> ex_interfaces_memory \<and>
   vertex_interface_data (vertices (g_graph ex_abandoned) ! 0) = [((1, 2), InterfaceData_new)] \<and>
   FreeState 3 \<in> set (trace ex_abandoned_memory) \<and>
   FreeState 4 \<in> set (trace ex_abandoned_memory) \<and>
   vertex_interface_data (vertices (g_graph ex_abandoned) ! 1) =
     [((0, 2), \<lparr>points_first = Some 9, points_second = None, sigmas_first = None,
                sigmas_second = None, d_last = \<infinity>\<rparr>)] \<and>
   configuration ex_abandoned_memory (Some 9) = Some 20 \<and>
   vertex_state (vertices (g_graph ex_abandoned) ! 2) = Some 10 \<and>
   configuration ex_abandoned_memory (Some 10) = Some 5 \<and>
   \<not> close_point_in_range ex_si (sparseDelta ex_abandoned) (Some 5)
       \<lparr>points_first = Some 9, points_second = None, sigmas_first = None,
        sigmas_second = None, d_last = \<infinity>\<rparr> ex_abandoned_memory"
proof -
  have before: "close_point_in_range ex_si (sparseDelta ex_interfaces) (Some 5)
     \<lparr>points_first = Some 3, points_second = Some 4, sigmas_first = None,
      sigmas_second = None, d_last = enat 2\<rparr> ex_interfaces_memory"
    by (simp add: close_point_in_range_def configuration_def lookup_def ex_si_def
        ex_interfaces_def ex_roadmap_def ex_interfaces_memory_def)
  have h0: "vertex_interface_data (vertices (g_graph ex_abandoned) ! 0) =
      [((1, 2), InterfaceData_new)]"
    and h1: "vertex_interface_data (vertices (g_graph ex_abandoned) ! 1) =
     [((0, 2), \<lparr>points_first = Some 9, points_second = None, sigmas_first = None,
                sigmas_second = None, d_last = \<infinity>\<rparr>)]"
    and count: "milestoneCount ex_abandoned = 3"
    and st: "vertex_state (vertices (g_graph ex_abandoned) ! 2) = Some 10"
    by (simp_all add: ex_abandoned_def milestoneCount_def)
  have mem: "FreeState 3 \<in> set (trace ex_abandoned_memory)"
    "FreeState 4 \<in> set (trace ex_abandoned_memory)"
    "configuration ex_abandoned_memory (Some 9) = Some 20"
    "configuration ex_abandoned_memory (Some 10) = Some 5"
    by (simp_all add: ex_abandoned_memory_def configuration_def lookup_def)
  from abandonment_correct [OF ex_run_abandon] have
    "\<forall>v < milestoneCount ex_abandoned.
        \<forall>(k, r) \<in> set (vertex_interface_data (vertices (g_graph ex_abandoned) ! v)).
          \<not> close_point_in_range ex_si (sparseDelta ex_abandoned) (Some 5) r ex_abandoned_memory"
    by blast
  then have "\<forall>(k, r) \<in> set (vertex_interface_data (vertices (g_graph ex_abandoned) ! 1)).
          \<not> close_point_in_range ex_si (sparseDelta ex_abandoned) (Some 5) r ex_abandoned_memory"
    using count by (auto elim!: allE [of _ "1::nat"])
  with h1 have "\<not> close_point_in_range ex_si (sparseDelta ex_abandoned) (Some 5)
       \<lparr>points_first = Some 9, points_second = None, sigmas_first = None,
        sigmas_second = None, d_last = \<infinity>\<rparr> ex_abandoned_memory"
    by simp
  with ex_run_abandon before h0 h1 st mem show ?thesis by simp
qed

end
